theory Spec2Isabelle
  imports Complex_Main
begin

section \<open>Data model\<close>

text \<open>
  A Python \<^verbatim>\<open>str\<close> is a sequence of Unicode code points and \<^verbatim>\<open>len\<close> counts code
  points, so a string is modelled as a list of code points. Literals are written with
  \<open>ustr\<close>, which maps an ASCII literal to its code points.
\<close>

type_synonym pystr = "nat list"

definition ustr :: "string \<Rightarrow> pystr" where
  "ustr s = map of_char s"

text \<open>\<^verbatim>\<open>sep.join(parts)\<close>.\<close>

fun join :: "pystr \<Rightarrow> pystr list \<Rightarrow> pystr" where
  "join sep [] = []"
| "join sep [p] = p"
| "join sep (p # q # ps) = p @ sep @ join sep (q # ps)"

text \<open>\<^verbatim>\<open>str(n)\<close> for a non-negative integer: its decimal digits.\<close>

fun str_nat :: "nat \<Rightarrow> pystr" where
  "str_nat n = (if n < 10 then [48 + n] else str_nat (n div 10) @ [48 + n mod 10])"

declare str_nat.simps [simp del]

text \<open>
  Exceptions raised inside the modelled code, each with its \<^verbatim>\<open>str(e)\<close>.
  \<open>ProviderError\<close> is any exception of the remote client (\<^verbatim>\<open>self.co.embed\<close>,
  \<^verbatim>\<open>self.co.chat\<close>, \<^verbatim>\<open>self.co.generate\<close>); \<open>ValueError\<close> is what \<^verbatim>\<open>np.dot\<close> raises on
  vectors of different length; \<open>IndexError\<close> is an out-of-range list index;
  \<open>IOError\<close> is any failure while opening or parsing the PDF. Every handler in the
  source is \<^verbatim>\<open>except Exception\<close>, so the kinds are never told apart by the code.
\<close>

datatype exn = ProviderError pystr | ValueError pystr | IndexError pystr | IOError pystr

fun str_exn :: "exn \<Rightarrow> pystr" where
  "str_exn (ProviderError m) = m"
| "str_exn (ValueError m) = m"
| "str_exn (IndexError m) = m"
| "str_exn (IOError m) = m"

definition list_index_out_of_range :: exn where
  "list_index_out_of_range = IndexError (ustr ''list index out of range'')"

text \<open>\<^verbatim>\<open>config.py\<close>.\<close>

definition CHUNK_SIZE :: int where "CHUNK_SIZE = 1000"
definition TOP_K :: int where "TOP_K = 3"
definition EMBEDDING_MODEL :: pystr where "EMBEDDING_MODEL = ustr ''embed-english-v3.0''"
definition GENERATION_MODEL :: pystr where "GENERATION_MODEL = ustr ''command-r7b-12-2024''"

text \<open>
  The stored corpus: the three attributes \<^verbatim>\<open>self.documents\<close>, \<^verbatim>\<open>self.embeddings\<close>,
  \<^verbatim>\<open>self.metadata\<close> of \<^verbatim>\<open>SimpleRAGSystem\<close>. A metadata entry is the dictionary
  \<^verbatim>\<open>{"source": ..., "chunk_id": i}\<close>. Floating-point numbers are modelled as reals
  (exact arithmetic).
\<close>

record meta =
  source :: pystr
  chunk_id :: nat

record rag_state =
  documents :: "pystr list"
  embeddings :: "real list list"
  metadata :: "meta list"

text \<open>The state after \<^verbatim>\<open>__init__\<close>.\<close>

definition init_state :: rag_state where
  "init_state = \<lparr>documents = [], embeddings = [], metadata = []\<rparr>"

text \<open>One entry of the list \<^verbatim>\<open>search\<close> returns: the keys id, text, score, metadata.\<close>

record search_result =
  res_id :: nat
  res_text :: pystr
  res_score :: real
  res_metadata :: meta

text \<open>
  The dictionary \<^verbatim>\<open>answer_question\<close> returns. Only the success branch of
  \<^verbatim>\<open>simple_rag.py\<close> sets \<^verbatim>\<open>model_used\<close>.
\<close>

record qa_result =
  question :: pystr
  answer :: pystr
  sources :: "search_result list"
  status :: pystr
  model_used :: "pystr option"

text \<open>
  Everything outside the repository that the code calls: the file system and PDF
  parser (\<open>path_exists\<close> is \<^verbatim>\<open>os.path.exists\<close>; \<open>read_pdf\<close> is opening the file and
  \<^verbatim>\<open>extract_text\<close> on every page, giving the page texts or the exception raised on the
  way), the remote provider (\<open>embed\<close> gives \<^verbatim>\<open>response.embeddings\<close> for the texts and
  input type, \<open>chat\<close> gives \<^verbatim>\<open>response.text\<close>, \<open>generate\<close> gives the texts of
  \<^verbatim>\<open>response.generations\<close>), and Python's float formatting
  (\<open>format_percent d x\<close> is \<^verbatim>\<open>format(x, ".d%")\<close>).
\<close>

record world =
  path_exists :: "pystr \<Rightarrow> bool"
  read_pdf :: "pystr \<Rightarrow> exn + pystr list"
  embed :: "pystr list \<Rightarrow> pystr \<Rightarrow> exn + real list list"
  chat :: "pystr \<Rightarrow> exn + pystr"
  generate :: "pystr \<Rightarrow> exn + pystr list"
  format_percent :: "nat \<Rightarrow> real \<Rightarrow> pystr"

text \<open>The remote calls an operation makes, in order, with their arguments.\<close>

datatype call =
  EmbedCall "pystr list" pystr pystr
| ChatCall pystr pystr
| GenerateCall pystr pystr

section \<open>\<^verbatim>\<open>pdf_processor.py\<close>: the chunker\<close>

text \<open>
  The code points for which \<^verbatim>\<open>str.isspace\<close> holds; the regular expression class
  \<^verbatim>\<open>\s\<close> on a \<^verbatim>\<open>str\<close> pattern and \<^verbatim>\<open>str.strip()\<close> use the same set.
\<close>

definition is_space :: "nat \<Rightarrow> bool" where
  "is_space c \<longleftrightarrow>
     (9 \<le> c \<and> c \<le> 13) \<or> (28 \<le> c \<and> c \<le> 32) \<or> c = 133 \<or> c = 160 \<or> c = 5760 \<or>
     (8192 \<le> c \<and> c \<le> 8202) \<or> c = 8232 \<or> c = 8233 \<or> c = 8239 \<or> c = 8287 \<or> c = 12288"

text \<open>\<^verbatim>\<open>re.sub(r'\s+', ' ', text)\<close>: every maximal run of whitespace becomes one space.\<close>

function re_sub_spaces :: "pystr \<Rightarrow> pystr" where
  "re_sub_spaces [] = []"
| "re_sub_spaces (c # cs) =
     (if is_space c then 32 # re_sub_spaces (dropWhile is_space cs)
      else c # re_sub_spaces cs)"
  by pat_completeness auto
termination
  by (relation "measure length") (auto simp: length_dropWhile_le less_Suc_eq_le)

text \<open>\<^verbatim>\<open>s.strip()\<close>.\<close>

definition strip :: "pystr \<Rightarrow> pystr" where
  "strip s = rev (dropWhile is_space (rev (dropWhile is_space s)))"

text \<open>The characters of the look-behind \<^verbatim>\<open>(?<=[.!?])\<close>.\<close>

definition is_terminal :: "nat \<Rightarrow> bool" where
  "is_terminal c \<longleftrightarrow> c = 46 \<or> c = 33 \<or> c = 63"

text \<open>
  \<^verbatim>\<open>re.split(r'(?<=[.!?])\s+', text)\<close>, scanning left to right with the piece read so
  far: a match starts at a whitespace character whose predecessor in the text is one
  of \<^verbatim>\<open>.!?\<close> and takes the whole run of whitespace. Right after a match the
  predecessor is whitespace, and at the start of the text there is none, so with an
  empty piece there is no match.
\<close>

function re_split_from :: "pystr \<Rightarrow> pystr \<Rightarrow> pystr list" where
  "re_split_from cur [] = [cur]"
| "re_split_from cur (c # cs) =
     (if is_space c \<and> cur \<noteq> [] \<and> is_terminal (last cur)
      then cur # re_split_from [] (dropWhile is_space cs)
      else re_split_from (cur @ [c]) cs)"
  by pat_completeness auto
termination
  by (relation "measure (\<lambda>(cur, rest). length rest)")
    (auto simp: length_dropWhile_le less_Suc_eq_le)

definition re_split_sentences :: "pystr \<Rightarrow> pystr list" where
  "re_split_sentences text = re_split_from [] text"

text \<open>
  The loop of \<^verbatim>\<open>load_pdf\<close> over the sentences, on the pair of \<^verbatim>\<open>chunks\<close> and
  \<^verbatim>\<open>current_chunk\<close>.
\<close>

fun chunk_loop :: "int \<Rightarrow> pystr list \<Rightarrow> pystr list \<times> pystr \<Rightarrow> pystr list \<times> pystr" where
  "chunk_loop chunk_size [] (chunks, current_chunk) = (chunks, current_chunk)"
| "chunk_loop chunk_size (sentence # rest) (chunks, current_chunk) =
     (if int (length current_chunk) + int (length sentence) < chunk_size
      then chunk_loop chunk_size rest (chunks, current_chunk @ sentence @ [32])
      else chunk_loop chunk_size rest
             (if current_chunk \<noteq> [] then chunks @ [strip current_chunk] else chunks,
              sentence @ [32]))"

text \<open>
  Lines 26 to 46 of \<^verbatim>\<open>load_pdf\<close>: from the extracted \<^verbatim>\<open>full_text\<close> to the chunks.
\<close>

definition normalize_text :: "pystr \<Rightarrow> pystr" where
  "normalize_text full_text = strip (re_sub_spaces full_text)"

definition chunk_text :: "int \<Rightarrow> pystr \<Rightarrow> pystr list" where
  "chunk_text chunk_size full_text =
     (let sentences = re_split_sentences (normalize_text full_text);
          (chunks, current_chunk) = chunk_loop chunk_size sentences ([], [])
      in if current_chunk \<noteq> [] then chunks @ [strip current_chunk] else chunks)"

text \<open>
  \<^verbatim>\<open>load_pdf\<close>: the page texts are concatenated, each followed by two newlines; any
  exception gives the empty list.
\<close>

definition load_pdf :: "int \<Rightarrow> exn + pystr list \<Rightarrow> pystr list" where
  "load_pdf chunk_size extracted =
     (case extracted of
        Inl e \<Rightarrow> []
      | Inr pages \<Rightarrow> chunk_text chunk_size (concat (map (\<lambda>text. text @ [10, 10]) pages)))"

definition process_pdf :: "int \<Rightarrow> exn + pystr list \<Rightarrow> pystr list \<times> bool" where
  "process_pdf chunk_size extracted =
     (let chunks = load_pdf chunk_size extracted;
          success = (length chunks > 0)
      in (chunks, success))"

section \<open>Cosine similarity\<close>

text \<open>
  \<^verbatim>\<open>np.dot(vec1, vec2)\<close> on two one-dimensional sequences: the sum of the products,
  and \<^verbatim>\<open>ValueError\<close> when the lengths differ.
\<close>

definition shapes_not_aligned :: "nat \<Rightarrow> nat \<Rightarrow> exn" where
  "shapes_not_aligned n m =
     ValueError (ustr ''shapes ('' @ str_nat n @ ustr '',) and ('' @ str_nat m @
       ustr '',) not aligned: '' @ str_nat n @ ustr '' (dim 0) != '' @ str_nat m @
       ustr '' (dim 0)'')"

definition np_dot :: "real list \<Rightarrow> real list \<Rightarrow> exn + real" where
  "np_dot vec1 vec2 =
     (if length vec1 \<noteq> length vec2 then Inl (shapes_not_aligned (length vec1) (length vec2))
      else Inr (\<Sum>(x, y)\<leftarrow>zip vec1 vec2. x * y))"

text \<open>\<^verbatim>\<open>np.linalg.norm(vec)\<close>: the Euclidean norm.\<close>

definition np_linalg_norm :: "real list \<Rightarrow> real" where
  "np_linalg_norm vec = sqrt (\<Sum>x\<leftarrow>vec. x * x)"

text \<open>
  The value of a floating-point division. Numpy's division does not raise on a zero
  denominator: it gives \<^verbatim>\<open>nan\<close> or an infinity, which is no real number. That outcome
  is \<open>NonFinite\<close>; every other value is \<open>Num\<close> of a real. The selector \<open>num_value\<close>
  reads the real of a \<open>Num\<close> and is unspecified on \<open>NonFinite\<close>.
\<close>

datatype npfloat = Num (num_value: real) | NonFinite

text \<open>The operator \<^verbatim>\<open>/\<close> on two numpy floats.\<close>

definition np_divide :: "real \<Rightarrow> real \<Rightarrow> npfloat" where
  "np_divide x y = (if y = 0 then NonFinite else Num (x / y))"

text \<open>
  \<^verbatim>\<open>rag_simple.py\<close>, \<^verbatim>\<open>_cosine_similarity\<close>: no handler, the exception of \<^verbatim>\<open>np.dot\<close>
  propagates. The same statements are the body of the \<^verbatim>\<open>try\<close> block of
  \<^verbatim>\<open>simple_rag.py\<close>.
\<close>

definition rag_simple_cosine_similarity :: "real list \<Rightarrow> real list \<Rightarrow> exn + npfloat" where
  "rag_simple_cosine_similarity vec1 vec2 =
     (case np_dot vec1 vec2 of
        Inl e \<Rightarrow> Inl e
      | Inr dot_product \<Rightarrow>
          (let norm1 = np_linalg_norm vec1;
               norm2 = np_linalg_norm vec2
           in if norm1 = 0 \<or> norm2 = 0 then Inr (Num 0)
              else Inr (np_divide dot_product (norm1 * norm2))))"

text \<open>
  \<^verbatim>\<open>simple_rag.py\<close>, \<^verbatim>\<open>_cosine_similarity\<close>: the same body inside
  \<^verbatim>\<open>try: ... except Exception: return 0\<close>.
\<close>

definition cosine_similarity_np :: "real list \<Rightarrow> real list \<Rightarrow> npfloat" where
  "cosine_similarity_np vec1 vec2 =
     (case rag_simple_cosine_similarity vec1 vec2 of
        Inl e \<Rightarrow> Num 0
      | Inr v \<Rightarrow> v)"

text \<open>
  The score the callers of \<^verbatim>\<open>_cosine_similarity\<close> sort by and store with
  \<^verbatim>\<open>float(score)\<close>: the real number of the returned value. The function never returns
  \<open>NonFinite\<close> (theorem \<open>cosine_similarity_spec\<close> below), so the score is always
  specified.
\<close>

definition cosine_similarity :: "real list \<Rightarrow> real list \<Rightarrow> real" where
  "cosine_similarity vec1 vec2 = num_value (cosine_similarity_np vec1 vec2)"

text \<open>The mathematical dot product the specification refers to.\<close>

definition dot :: "real list \<Rightarrow> real list \<Rightarrow> real" where
  "dot a b = (\<Sum>(x, y)\<leftarrow>zip a b. x * y)"

section \<open>\<^verbatim>\<open>simple_rag.py\<close>: ingestion\<close>

text \<open>\<^verbatim>\<open>os.path.basename\<close>: what follows the last slash.\<close>

definition basename :: "pystr \<Rightarrow> pystr" where
  "basename p = rev (takeWhile (\<lambda>c. c \<noteq> 47) (rev p))"

text \<open>
  \<^verbatim>\<open>process_document\<close> returns its boolean; the model also returns the state after the
  call and the remote calls made. The three assignments to \<^verbatim>\<open>self\<close> happen only after
  the embedding call has returned.
\<close>

definition process_document :: "world \<Rightarrow> rag_state \<Rightarrow> pystr \<Rightarrow> bool \<times> rag_state \<times> call list" where
  "process_document w st pdf_path =
     (if \<not> path_exists w pdf_path then (False, st, [])
      else
        (let (chunks, success) = process_pdf CHUNK_SIZE (read_pdf w pdf_path)
         in if \<not> success then (False, st, [])
            else
              (case embed w chunks (ustr ''search_document'') of
                 Inl e \<Rightarrow>
                   (False, st, [EmbedCall chunks EMBEDDING_MODEL (ustr ''search_document'')])
               | Inr response_embeddings \<Rightarrow>
                   (True,
                    \<lparr>documents = chunks,
                     embeddings = response_embeddings,
                     metadata = map (\<lambda>i. \<lparr>source = basename pdf_path, chunk_id = i\<rparr>)
                                  [0..<length chunks]\<rparr>,
                    [EmbedCall chunks EMBEDDING_MODEL (ustr ''search_document'')]))))"

section \<open>\<^verbatim>\<open>simple_rag.py\<close>: search\<close>

text \<open>
  \<^verbatim>\<open>similarities.sort(key=lambda x: x[1], reverse=True)\<close>: Python's sort is stable, and
  with \<^verbatim>\<open>reverse=True\<close> elements with equal keys keep their original order. That is a
  stable ascending sort on the negated key.
\<close>

definition sort_reverse :: "(nat \<times> real) list \<Rightarrow> (nat \<times> real) list" where
  "sort_reverse similarities = sort_key (\<lambda>x. - snd x) similarities"

text \<open>\<^verbatim>\<open>xs[:k]\<close>: a negative bound counts from the end.\<close>

definition slice_to :: "int \<Rightarrow> 'a list \<Rightarrow> 'a list" where
  "slice_to k xs = (if 0 \<le> k then take (nat k) xs else take (nat (int (length xs) + k)) xs)"

text \<open>
  The loop that builds \<^verbatim>\<open>results\<close> from the enumerated slice; reading
  \<^verbatim>\<open>self.documents[doc_idx]\<close> or \<^verbatim>\<open>self.metadata[doc_idx]\<close> out of range raises.
\<close>

fun build_results :: "rag_state \<Rightarrow> (nat \<times> nat \<times> real) list \<Rightarrow> exn + search_result list" where
  "build_results st [] = Inr []"
| "build_results st ((i, doc_idx, score) # rest) =
     (if length (documents st) \<le> doc_idx then Inl list_index_out_of_range
      else if length (metadata st) \<le> doc_idx then Inl list_index_out_of_range
      else
        (case build_results st rest of
           Inl e \<Rightarrow> Inl e
         | Inr results \<Rightarrow>
             Inr (\<lparr>res_id = i + 1,
                   res_text = documents st ! doc_idx,
                   res_score = score,
                   res_metadata = metadata st ! doc_idx\<rparr> # results)))"

text \<open>The sorted and sliced list of (chunk index, score) pairs.\<close>

definition ranking :: "real list \<Rightarrow> real list list \<Rightarrow> int \<Rightarrow> (nat \<times> real) list" where
  "ranking query_embedding embs top_k =
     slice_to top_k
       (sort_reverse
          (map (\<lambda>(i, doc_embedding). (i, cosine_similarity query_embedding doc_embedding))
             (enumerate 0 embs)))"

text \<open>The \<^verbatim>\<open>try\<close> block of \<^verbatim>\<open>search\<close>.\<close>

definition search_try :: "world \<Rightarrow> rag_state \<Rightarrow> pystr \<Rightarrow> int \<Rightarrow> exn + search_result list" where
  "search_try w st query top_k =
     (case embed w [query] (ustr ''search_query'') of
        Inl e \<Rightarrow> Inl e
      | Inr response_embeddings \<Rightarrow>
          (case response_embeddings of
             [] \<Rightarrow> Inl list_index_out_of_range
           | query_embedding # _ \<Rightarrow>
               build_results st (enumerate 0 (ranking query_embedding (embeddings st) top_k))))"

text \<open>
  \<^verbatim>\<open>search\<close>: the check for an empty store, then the \<^verbatim>\<open>try\<close> block, with
  \<^verbatim>\<open>except Exception: return []\<close>. The model returns the results, the state after the
  call and the remote calls made.
\<close>

definition search :: "world \<Rightarrow> rag_state \<Rightarrow> pystr \<Rightarrow> int \<Rightarrow> search_result list \<times> rag_state \<times> call list" where
  "search w st query top_k =
     (if embeddings st = [] then ([], st, [])
      else
        ((case search_try w st query top_k of Inl e \<Rightarrow> [] | Inr results \<Rightarrow> results),
         st,
         [EmbedCall [query] EMBEDDING_MODEL (ustr ''search_query'')]))"

section \<open>\<^verbatim>\<open>simple_rag.py\<close>: answering\<close>

definition no_documents_answer :: pystr where
  "no_documents_answer =
     [9888, 65039] @ ustr '' No documents have been processed yet. Please upload and process a PDF first.''"

definition no_results_answer :: pystr where
  "no_results_answer =
     [10060] @ ustr '' I couldn'' @ [39] @
     ustr ''t find any relevant information in the document for your question.''"

text \<open>One block of the context: source number, relevance with two decimals, text.\<close>

definition context_part :: "world \<Rightarrow> search_result \<Rightarrow> pystr" where
  "context_part w chunk =
     ustr ''[Source '' @ str_nat (res_id chunk) @ ustr '', Relevance: '' @
     format_percent w 2 (res_score chunk) @ ustr '']'' @ [10] @ res_text chunk"

definition build_context :: "world \<Rightarrow> search_result list \<Rightarrow> pystr" where
  "build_context w relevant_chunks = join [10, 10] (map (context_part w) relevant_chunks)"

definition chat_message :: "pystr \<Rightarrow> pystr \<Rightarrow> pystr" where
  "chat_message context q =
     ustr ''You are a helpful assistant that answers questions based on the provided context.'' @ [10, 10] @
     ustr ''CONTEXT FROM DOCUMENT:'' @ [10] @
     context @ [10, 10] @
     ustr ''INSTRUCTIONS:'' @ [10] @
     ustr ''1. Answer the question based ONLY on the context provided above'' @ [10] @
     ustr ''2. If the context doesn'' @ [39] @ ustr ''t contain the answer, say '' @ [34] @
     ustr ''I cannot find this information in the document'' @ [34] @ [10] @
     ustr ''3. Be concise and accurate'' @ [10] @
     ustr ''4. Reference which source(s) you used when applicable'' @ [10] @
     ustr ''5. If the question is about the document'' @ [39] @
     ustr ''s main topic, summarize what the document is about'' @ [10, 10] @
     ustr ''QUESTION: '' @ q @ [10, 10] @
     ustr ''ANSWER:''"

text \<open>
  The fallback loop over \<^verbatim>\<open>enumerate(relevant_chunks[:3], 1)\<close>: each round appends the
  source line and the first 200 characters of the text followed by three dots.
\<close>

definition fallback_header :: pystr where
  "fallback_header =
     ustr ''Based on the document, here'' @ [39] @ ustr ''s what I found:'' @ [10, 10]"

definition fallback_block :: "world \<Rightarrow> nat \<times> search_result \<Rightarrow> pystr" where
  "fallback_block w p =
     (case p of (i, chunk) \<Rightarrow>
        ustr ''**Source '' @ str_nat i @ ustr ''** (Relevance: '' @
        format_percent w 1 (res_score chunk) @ ustr ''):'' @ [10] @
        take 200 (res_text chunk) @ ustr ''...'' @ [10, 10])"

definition fallback_answer :: "world \<Rightarrow> search_result list \<Rightarrow> pystr" where
  "fallback_answer w relevant_chunks =
     foldl (\<lambda>acc p. acc @ fallback_block w p) fallback_header
       (enumerate 1 (slice_to 3 relevant_chunks))"

definition answer_question :: "world \<Rightarrow> rag_state \<Rightarrow> pystr \<Rightarrow> qa_result \<times> rag_state \<times> call list" where
  "answer_question w st q =
     (if documents st = [] then
        (\<lparr>question = q, answer = no_documents_answer, sources = [],
          status = ustr ''no_documents'', model_used = None\<rparr>, st, [])
      else
        (case search w st q TOP_K of
           (relevant_chunks, st1, calls1) \<Rightarrow>
             if relevant_chunks = [] then
               (\<lparr>question = q, answer = no_results_answer, sources = [],
                 status = ustr ''no_results'', model_used = None\<rparr>, st1, calls1)
             else
               (let context = build_context w relevant_chunks;
                    message = chat_message context q;
                    calls2 = calls1 @ [ChatCall message GENERATION_MODEL]
                in case chat w message of
                     Inr response_text \<Rightarrow>
                       (\<lparr>question = q, answer = strip response_text,
                         sources = relevant_chunks, status = ustr ''success'',
                         model_used = Some GENERATION_MODEL\<rparr>, st1, calls2)
                   | Inl e \<Rightarrow>
                       (\<lparr>question = q, answer = fallback_answer w relevant_chunks,
                         sources = relevant_chunks, status = ustr ''fallback'',
                         model_used = None\<rparr>, st1, calls2))))"

section \<open>\<^verbatim>\<open>rag_simple.py\<close>: the second \<^verbatim>\<open>SimpleRAGSystem\<close>\<close>

text \<open>
  The similarity loop of \<^verbatim>\<open>rag_simple.py\<close>: \<^verbatim>\<open>_cosine_similarity\<close> has no handler
  there, so the loop stops at the first exception. The pairs hold the real number of
  each returned value, as in \<^verbatim>\<open>simple_rag.py\<close>.
\<close>

fun rag_simple_similarities :: "real list \<Rightarrow> (nat \<times> real list) list \<Rightarrow> exn + (nat \<times> real) list" where
  "rag_simple_similarities query_embedding [] = Inr []"
| "rag_simple_similarities query_embedding ((i, doc_embedding) # rest) =
     (case rag_simple_cosine_similarity query_embedding doc_embedding of
        Inl e \<Rightarrow> Inl e
      | Inr similarity \<Rightarrow>
          (case rag_simple_similarities query_embedding rest of
             Inl e \<Rightarrow> Inl e
           | Inr similarities \<Rightarrow> Inr ((i, num_value similarity) # similarities)))"

definition rag_simple_search_try :: "world \<Rightarrow> rag_state \<Rightarrow> pystr \<Rightarrow> int \<Rightarrow> exn + search_result list" where
  "rag_simple_search_try w st query top_k =
     (case embed w [query] (ustr ''search_query'') of
        Inl e \<Rightarrow> Inl e
      | Inr response_embeddings \<Rightarrow>
          (case response_embeddings of
             [] \<Rightarrow> Inl list_index_out_of_range
           | query_embedding # _ \<Rightarrow>
               (case rag_simple_similarities query_embedding (enumerate 0 (embeddings st)) of
                  Inl e \<Rightarrow> Inl e
                | Inr similarities \<Rightarrow>
                    build_results st
                      (enumerate 0 (slice_to top_k (sort_reverse similarities))))))"

definition rag_simple_search :: "world \<Rightarrow> rag_state \<Rightarrow> pystr \<Rightarrow> int \<Rightarrow> search_result list \<times> rag_state \<times> call list" where
  "rag_simple_search w st query top_k =
     (if embeddings st = [] then ([], st, [])
      else
        ((case rag_simple_search_try w st query top_k of Inl e \<Rightarrow> [] | Inr results \<Rightarrow> results),
         st,
         [EmbedCall [query] EMBEDDING_MODEL (ustr ''search_query'')]))"

definition rag_simple_no_results_answer :: pystr where
  "rag_simple_no_results_answer =
     ustr ''I couldn'' @ [39] @
     ustr ''t find any relevant information in the document. Please make sure a document has been processed first.''"

definition rag_simple_prompt :: "pystr \<Rightarrow> pystr \<Rightarrow> pystr" where
  "rag_simple_prompt context q =
     ustr ''Based on the following context from a document, answer the question.'' @ [10] @
     ustr ''            '' @ [10] @
     ustr ''CONTEXT:'' @ [10] @
     context @ [10, 10] @
     ustr ''QUESTION: '' @ q @ [10, 10] @
     ustr ''INSTRUCTIONS:'' @ [10] @
     ustr ''1. Answer based ONLY on the context provided'' @ [10] @
     ustr ''2. If the context doesn'' @ [39] @ ustr ''t contain the answer, say '' @ [34] @
     ustr ''I cannot find this information in the document'' @ [34] @ [10] @
     ustr ''3. Be concise and accurate'' @ [10] @
     ustr ''4. Reference which source(s) you used'' @ [10, 10] @
     ustr ''ANSWER:''"

text \<open>
  \<^verbatim>\<open>answer_question\<close> of \<^verbatim>\<open>rag_simple.py\<close>: no check of \<^verbatim>\<open>self.documents\<close>, and the
  handler of the generation call returns the status \<^verbatim>\<open>error\<close> with the exception's
  text in the answer.
\<close>

definition rag_simple_answer_question :: "world \<Rightarrow> rag_state \<Rightarrow> pystr \<Rightarrow> qa_result \<times> rag_state \<times> call list" where
  "rag_simple_answer_question w st q =
     (case rag_simple_search w st q TOP_K of
        (relevant_chunks, st1, calls1) \<Rightarrow>
          if relevant_chunks = [] then
            (\<lparr>question = q, answer = rag_simple_no_results_answer, sources = [],
              status = ustr ''no_results'', model_used = None\<rparr>, st1, calls1)
          else
            (let context = build_context w relevant_chunks;
                 prompt = rag_simple_prompt context q;
                 calls2 = calls1 @ [GenerateCall prompt GENERATION_MODEL];
                 generated = (case generate w prompt of
                                Inl e \<Rightarrow> Inl e
                              | Inr [] \<Rightarrow> Inl list_index_out_of_range
                              | Inr (g # _) \<Rightarrow> Inr (strip g))
             in case generated of
                  Inr text \<Rightarrow>
                    (\<lparr>question = q, answer = text, sources = relevant_chunks,
                      status = ustr ''success'', model_used = None\<rparr>, st1, calls2)
                | Inl e \<Rightarrow>
                    (\<lparr>question = q, answer = ustr ''Error generating answer: '' @ str_exn e,
                      sources = relevant_chunks, status = ustr ''error'',
                      model_used = None\<rparr>, st1, calls2)))"

section \<open>Notions for the properties of the search\<close>

text \<open>
  The order the specification asks of the ranking, on pairs of chunk index and score: a
  higher score first, and among equal scores the lower chunk index first.
\<close>

definition ranks_before :: "nat \<times> real \<Rightarrow> nat \<times> real \<Rightarrow> bool" where
  "ranks_before x y \<longleftrightarrow> snd y < snd x \<or> (snd x = snd y \<and> fst x < fst y)"

text \<open>The list \<^verbatim>\<open>similarities\<close> before it is sorted.\<close>

definition scored :: "real list \<Rightarrow> real list list \<Rightarrow> (nat \<times> real) list" where
  "scored q embs = map (\<lambda>(i, doc_embedding). (i, cosine_similarity q doc_embedding)) (enumerate 0 embs)"

text \<open>The dictionary one round of the result loop appends.\<close>

definition make_result :: "rag_state \<Rightarrow> nat \<times> nat \<times> real \<Rightarrow> search_result" where
  "make_result st p =
     (case p of (i, doc_idx, score) \<Rightarrow>
        \<lparr>res_id = i + 1, res_text = documents st ! doc_idx, res_score = score,
         res_metadata = metadata st ! doc_idx\<rparr>)"

section \<open>Concrete inputs\<close>

text \<open>
  A store of three chunks with orthonormal embeddings, and two worlds: one whose
  embedding call answers every request with the vectors (1, 0, 0) and (0, 1), and one
  whose every remote call fails. In both the generation call fails.
\<close>

definition example_state :: rag_state where
  "example_state =
     \<lparr>documents = [ustr ''A.'', ustr ''B.'', ustr ''C.''],
      embeddings = [[0, 1, 0], [1, 0, 0], [0, 0, 1]],
      metadata = [\<lparr>source = ustr ''d.pdf'', chunk_id = 0\<rparr>,
                  \<lparr>source = ustr ''d.pdf'', chunk_id = 1\<rparr>,
                  \<lparr>source = ustr ''d.pdf'', chunk_id = 2\<rparr>]\<rparr>"

definition example_world :: world where
  "example_world =
     \<lparr>path_exists = (\<lambda>p. True),
      read_pdf = (\<lambda>p. Inr [ustr ''Hi.'']),
      embed = (\<lambda>texts input_type. Inr [[1, 0, 0], [0, 1]]),
      chat = (\<lambda>message. Inl (ProviderError (ustr ''down''))),
      generate = (\<lambda>prompt. Inl (ProviderError (ustr ''down''))),
      format_percent = (\<lambda>d x. ustr ''?'')\<rparr>"

definition offline_world :: world where
  "offline_world =
     \<lparr>path_exists = (\<lambda>p. True),
      read_pdf = (\<lambda>p. Inr [ustr ''Hi.'']),
      embed = (\<lambda>texts input_type. Inl (ProviderError (ustr ''down''))),
      chat = (\<lambda>message. Inl (ProviderError (ustr ''down''))),
      generate = (\<lambda>prompt. Inl (ProviderError (ustr ''down''))),
      format_percent = (\<lambda>d x. ustr ''?'')\<rparr>"

text \<open>What \<^verbatim>\<open>search\<close> returns on the example store for \<^verbatim>\<open>top_k = 3\<close>.\<close>

definition example_results :: "search_result list" where
  "example_results =
     [\<lparr>res_id = 1, res_text = ustr ''B.'', res_score = 1,
        res_metadata = \<lparr>source = ustr ''d.pdf'', chunk_id = 1\<rparr>\<rparr>,
      \<lparr>res_id = 2, res_text = ustr ''A.'', res_score = 0,
        res_metadata = \<lparr>source = ustr ''d.pdf'', chunk_id = 0\<rparr>\<rparr>,
      \<lparr>res_id = 3, res_text = ustr ''C.'', res_score = 0,
        res_metadata = \<lparr>source = ustr ''d.pdf'', chunk_id = 2\<rparr>\<rparr>]"


text \<open>
  A world whose PDF has two pages without text (a scanned document) and whose
  embedding call returns one vector per text.
\<close>

definition blank_pdf_world :: world where
  "blank_pdf_world =
     \<lparr>path_exists = (\<lambda>p. True),
      read_pdf = (\<lambda>p. Inr [ustr ''  '', []]),
      embed = (\<lambda>texts input_type. Inr (map (\<lambda>t. [1, 0, 0]) texts)),
      chat = (\<lambda>message. Inl (ProviderError (ustr ''down''))),
      generate = (\<lambda>prompt. Inl (ProviderError (ustr ''down''))),
      format_percent = (\<lambda>d x. ustr ''?'')\<rparr>"

section \<open>Notions for the properties of the chunker\<close>

text \<open>A sentence is solid when it is not empty and neither starts nor ends with whitespace.\<close>

definition solid :: "pystr \<Rightarrow> bool" where
  "solid s \<longleftrightarrow> s \<noteq> [] \<and> \<not> is_space (hd s) \<and> \<not> is_space (last s)"

text \<open>
  A text is collapsed when every whitespace character in it is a single space that no
  whitespace follows; it is tidy when, in addition, a character follows every space.
\<close>

fun collapsed :: "pystr \<Rightarrow> bool" where
  "collapsed [] = True"
| "collapsed (c # cs) =
     ((if is_space c then c = 32 \<and> (case cs of [] \<Rightarrow> True | d # ds \<Rightarrow> \<not> is_space d) else True) \<and>
      collapsed cs)"

fun tidy :: "pystr \<Rightarrow> bool" where
  "tidy [] = True"
| "tidy (c # cs) =
     ((if is_space c then c = 32 \<and> (case cs of [] \<Rightarrow> False | d # ds \<Rightarrow> \<not> is_space d) else True) \<and>
      tidy cs)"

text \<open>
  The value of \<^verbatim>\<open>current_chunk\<close> while it holds the sentences \<open>g\<close>: each sentence
  followed by a space.
\<close>

definition spaced_concat :: "pystr list \<Rightarrow> pystr" where
  "spaced_concat g = concat (map (\<lambda>s. s @ [32]) g)"

text \<open>
  The loop of \<^verbatim>\<open>load_pdf\<close> on lists of sentences instead of strings: the groups closed
  so far and the sentences of the current chunk. It is compared with \<open>chunk_loop\<close>
  below.
\<close>

fun group_loop :: "int \<Rightarrow> pystr list \<Rightarrow> pystr list list \<times> pystr list \<Rightarrow> pystr list list \<times> pystr list" where
  "group_loop chunk_size [] (groups, current) = (groups, current)"
| "group_loop chunk_size (sentence # rest) (groups, current) =
     (if int (length (spaced_concat current)) + int (length sentence) < chunk_size
      then group_loop chunk_size rest (groups, current @ [sentence])
      else group_loop chunk_size rest
             (if current \<noteq> [] then groups @ [current] else groups, [sentence]))"

text \<open>
  The size bound of the specification on a group of sentences: the chunk is no longer
  than the chunk size, or it is a single sentence longer than the chunk size.
\<close>

definition fits :: "int \<Rightarrow> pystr list \<Rightarrow> bool" where
  "fits chunk_size g \<longleftrightarrow>
     int (length (join [32] g)) \<le> chunk_size \<or> (\<exists>s. g = [s] \<and> chunk_size < int (length s))"

section \<open>Properties of the cosine similarity\<close>

lemma sum_squares_nonneg: "0 \<le> (\<Sum>x\<leftarrow>v. x * x)" for v :: "real list"
  by (induction v) auto

lemma np_linalg_norm_nonneg: "0 \<le> np_linalg_norm v"
  by (simp add: np_linalg_norm_def sum_squares_nonneg)

lemma np_linalg_norm_square: "np_linalg_norm v * np_linalg_norm v = (\<Sum>x\<leftarrow>v. x * x)"
  by (simp add: np_linalg_norm_def sum_squares_nonneg)

lemma dot_self: "dot v v = (\<Sum>x\<leftarrow>v. x * x)"
  by (induction v) (auto simp: dot_def)

lemma dot_commute: "dot a b = dot b a"
proof (induction a arbitrary: b)
  case Nil
  then show ?case by (simp add: dot_def)
next
  case (Cons x a)
  then show ?case by (cases b) (auto simp: dot_def)
qed

text \<open>Cauchy-Schwarz for lists, in squared form, by induction on both lists.\<close>

lemma cauchy_schwarz_square:
  "length a = length b \<Longrightarrow> dot a b * dot a b \<le> (\<Sum>x\<leftarrow>a. x * x) * (\<Sum>y\<leftarrow>b. y * y)"
proof (induction a b rule: list_induct2)
  case Nil
  then show ?case by (simp add: dot_def)
next
  case (Cons x a y b)
  define A where "A = (\<Sum>x\<leftarrow>a. x * x)"
  define B where "B = (\<Sum>y\<leftarrow>b. y * y)"
  define D where "D = dot a b"
  have A0: "0 \<le> A" and B0: "0 \<le> B"
    by (simp_all add: A_def B_def sum_squares_nonneg)
  have IH: "D * D \<le> A * B"
    using Cons.IH by (simp add: A_def B_def D_def)
  have step: "dot (x # a) (y # b) = x * y + D"
    by (simp add: dot_def D_def)
  have cross: "2 * (D * (x * y)) \<le> A * (y * y) + B * (x * x)"
  proof -
    have "(D * (x * y)) * (D * (x * y)) \<le> (A * (y * y)) * (B * (x * x))"
    proof -
      have "(D * (x * y)) * (D * (x * y)) = (D * D) * ((x * x) * (y * y))"
        by (simp add: algebra_simps)
      also have "\<dots> \<le> (A * B) * ((x * x) * (y * y))"
        by (rule mult_right_mono [OF IH]) simp
      also have "\<dots> = (A * (y * y)) * (B * (x * x))"
        by (simp add: algebra_simps)
      finally show ?thesis .
    qed
    moreover have "0 \<le> A * (y * y)" "0 \<le> B * (x * x)"
      using A0 B0 by simp_all
    ultimately have "\<bar>D * (x * y)\<bar> \<le> sqrt (A * (y * y)) * sqrt (B * (x * x))"
      by (metis abs_le_square_iff abs_mult real_sqrt_abs2 real_sqrt_le_iff real_sqrt_mult
          real_sqrt_mult_self)
    moreover have "2 * (sqrt (A * (y * y)) * sqrt (B * (x * x))) \<le> A * (y * y) + B * (x * x)"
    proof -
      have "0 \<le> (sqrt (A * (y * y)) - sqrt (B * (x * x))) * (sqrt (A * (y * y)) - sqrt (B * (x * x)))"
        by simp
      also have "\<dots> = sqrt (A * (y * y)) * sqrt (A * (y * y)) + sqrt (B * (x * x)) * sqrt (B * (x * x))
          - 2 * (sqrt (A * (y * y)) * sqrt (B * (x * x)))"
        by (simp add: algebra_simps)
      also have "\<dots> = A * (y * y) + B * (x * x) - 2 * (sqrt (A * (y * y)) * sqrt (B * (x * x)))"
        using \<open>0 \<le> A * (y * y)\<close> \<open>0 \<le> B * (x * x)\<close> by simp
      finally show ?thesis by simp
    qed
    ultimately show ?thesis by linarith
  qed
  have "dot (x # a) (y # b) * dot (x # a) (y # b) = D * D + 2 * (D * (x * y)) + (x * x) * (y * y)"
    by (simp add: step algebra_simps)
  also have "\<dots> \<le> A * B + (A * (y * y) + B * (x * x)) + (x * x) * (y * y)"
    using IH cross by linarith
  also have "\<dots> = (x * x + A) * (y * y + B)"
    by (simp add: algebra_simps)
  finally show ?case
    by (simp add: A_def B_def)
qed

lemma cauchy_schwarz_abs:
  assumes "length a = length b"
  shows "\<bar>dot a b\<bar> \<le> np_linalg_norm a * np_linalg_norm b"
proof -
  have "\<bar>dot a b\<bar> * \<bar>dot a b\<bar> \<le> (np_linalg_norm a * np_linalg_norm b) * (np_linalg_norm a * np_linalg_norm b)"
  proof -
    have "\<bar>dot a b\<bar> * \<bar>dot a b\<bar> = dot a b * dot a b"
      by simp
    also have "\<dots> \<le> (\<Sum>x\<leftarrow>a. x * x) * (\<Sum>y\<leftarrow>b. y * y)"
      by (rule cauchy_schwarz_square [OF assms])
    also have "\<dots> = (np_linalg_norm a * np_linalg_norm a) * (np_linalg_norm b * np_linalg_norm b)"
      by (simp only: np_linalg_norm_square)
    also have "\<dots> = (np_linalg_norm a * np_linalg_norm b) * (np_linalg_norm a * np_linalg_norm b)"
      by (simp add: algebra_simps)
    finally show ?thesis .
  qed
  moreover have "0 \<le> np_linalg_norm a * np_linalg_norm b"
    by (simp add: np_linalg_norm_nonneg)
  ultimately show ?thesis
    by (metis abs_ge_zero abs_of_nonneg mult_mono linorder_not_le mult_strict_mono' order_less_le)
qed

lemma rag_simple_cosine_similarity_eq:
  "rag_simple_cosine_similarity a b =
     (if length a \<noteq> length b then Inl (shapes_not_aligned (length a) (length b))
      else if np_linalg_norm a = 0 \<or> np_linalg_norm b = 0 then Inr (Num 0)
      else Inr (Num (dot a b / (np_linalg_norm a * np_linalg_norm b))))"
  by (simp add: rag_simple_cosine_similarity_def np_dot_def np_divide_def dot_def Let_def)

lemma cosine_similarity_np_eq:
  "cosine_similarity_np a b =
     Num (if length a \<noteq> length b \<or> np_linalg_norm a = 0 \<or> np_linalg_norm b = 0 then 0
          else dot a b / (np_linalg_norm a * np_linalg_norm b))"
  by (simp add: cosine_similarity_np_def rag_simple_cosine_similarity_eq)

lemma cosine_similarity_eq:
  "cosine_similarity a b =
     (if length a \<noteq> length b \<or> np_linalg_norm a = 0 \<or> np_linalg_norm b = 0 then 0
      else dot a b / (np_linalg_norm a * np_linalg_norm b))"
  by (simp add: cosine_similarity_def cosine_similarity_np_eq)

lemma cosine_similarity_bounds: "\<bar>cosine_similarity a b\<bar> \<le> 1"
proof (cases "length a \<noteq> length b \<or> np_linalg_norm a = 0 \<or> np_linalg_norm b = 0")
  case True
  then show ?thesis by (auto simp: cosine_similarity_eq)
next
  case False
  then have len: "length a = length b" and pos: "0 < np_linalg_norm a * np_linalg_norm b"
    using np_linalg_norm_nonneg [of a] np_linalg_norm_nonneg [of b] by (auto simp: less_le)
  have "\<bar>dot a b / (np_linalg_norm a * np_linalg_norm b)\<bar> = \<bar>dot a b\<bar> / (np_linalg_norm a * np_linalg_norm b)"
    using pos by simp
  also have "\<dots> \<le> 1"
    using cauchy_schwarz_abs [OF len] pos by simp
  finally show ?thesis
    using False by (simp add: cosine_similarity_eq)
qed

lemma cosine_similarity_self:
  assumes "np_linalg_norm a \<noteq> 0"
  shows "cosine_similarity a a = 1"
proof -
  have "dot a a = np_linalg_norm a * np_linalg_norm a"
    by (simp add: dot_self np_linalg_norm_square)
  then show ?thesis
    using assms by (simp add: cosine_similarity_eq)
qed

lemma np_linalg_norm_3_4: "np_linalg_norm [3, 4] = 5"
proof -
  have "sqrt 25 = 5"
    by (rule real_sqrt_unique) simp_all
  then show ?thesis
    by (simp add: np_linalg_norm_def)
qed

lemma np_linalg_norm_4_3: "np_linalg_norm [4, 3] = 5"
proof -
  have "sqrt 25 = 5"
    by (rule real_sqrt_unique) simp_all
  then show ?thesis
    by (simp add: np_linalg_norm_def)
qed

text \<open>
  Claim C8. In exact arithmetic, \<^verbatim>\<open>_cosine_similarity\<close> of \<^verbatim>\<open>simple_rag.py\<close> returns the
  number 0 when either vector has norm zero. For vectors of equal length with non-zero
  norms it returns the value of the division of the dot product by the product of the
  norms, which is the number \<open>dot a b / (norm a * norm b)\<close>. It never returns the
  outcome of a division by zero, so the division is never executed with a zero
  denominator. The number returned always lies between -1 and 1, and a vector of
  non-zero norm has similarity 1 with itself. Vectors of different length, for which
  the dot product is not defined and \<^verbatim>\<open>np.dot\<close> raises, give 0 through the handler.
\<close>

theorem cosine_similarity_spec:
  "(np_linalg_norm a = 0 \<or> np_linalg_norm b = 0 \<longrightarrow> cosine_similarity_np a b = Num 0) \<and>
   (length a \<noteq> length b \<longrightarrow> cosine_similarity_np a b = Num 0) \<and>
   (length a = length b \<and> np_linalg_norm a \<noteq> 0 \<and> np_linalg_norm b \<noteq> 0 \<longrightarrow>
      cosine_similarity_np a b = np_divide (dot a b) (np_linalg_norm a * np_linalg_norm b) \<and>
      cosine_similarity_np a b = Num (dot a b / (np_linalg_norm a * np_linalg_norm b))) \<and>
   cosine_similarity_np a b \<noteq> NonFinite \<and>
   (\<exists>r. cosine_similarity_np a b = Num r \<and> cosine_similarity a b = r \<and> - 1 \<le> r \<and> r \<le> 1) \<and>
   (np_linalg_norm a \<noteq> 0 \<longrightarrow> cosine_similarity_np a a = Num 1)"
proof -
  have bounds: "- 1 \<le> cosine_similarity a b \<and> cosine_similarity a b \<le> 1"
    using cosine_similarity_bounds [of a b] by linarith
  have zero: "np_linalg_norm a = 0 \<or> np_linalg_norm b = 0 \<longrightarrow> cosine_similarity_np a b = Num 0"
    by (simp add: cosine_similarity_np_eq)
  have mismatch: "length a \<noteq> length b \<longrightarrow> cosine_similarity_np a b = Num 0"
    by (simp add: cosine_similarity_np_eq)
  have quotient: "length a = length b \<and> np_linalg_norm a \<noteq> 0 \<and> np_linalg_norm b \<noteq> 0 \<longrightarrow>
      cosine_similarity_np a b = np_divide (dot a b) (np_linalg_norm a * np_linalg_norm b) \<and>
      cosine_similarity_np a b = Num (dot a b / (np_linalg_norm a * np_linalg_norm b))"
    by (simp add: cosine_similarity_np_eq np_divide_def)
  have finite: "cosine_similarity_np a b \<noteq> NonFinite"
    by (simp add: cosine_similarity_np_eq)
  have num: "cosine_similarity_np a b = Num (cosine_similarity a b)"
    by (simp add: cosine_similarity_def cosine_similarity_np_eq)
  have range: "\<exists>r. cosine_similarity_np a b = Num r \<and> cosine_similarity a b = r \<and> - 1 \<le> r \<and> r \<le> 1"
    using num bounds by blast
  have "cosine_similarity_np a a = Num (cosine_similarity a a)"
    by (simp add: cosine_similarity_def cosine_similarity_np_eq)
  then have self: "np_linalg_norm a \<noteq> 0 \<longrightarrow> cosine_similarity_np a a = Num 1"
    by (simp add: cosine_similarity_self)
  from zero mismatch quotient finite range self show ?thesis
    by blast
qed

theorem cosine_similarity_spec_witness:
  "cosine_similarity_np [3, 4] [4, 3] = Num (24 / 25) \<and>
   cosine_similarity_np [0, 0] [4, 3] = Num 0 \<and>
   cosine_similarity_np [0, 0] [0, 0] = Num 0 \<and>
   np_divide (dot [0, 0] [0, 0]) (np_linalg_norm [0, 0] * np_linalg_norm [0, 0]) = NonFinite \<and>
   cosine_similarity_np [3, 4] [4] = Num 0 \<and>
   cosine_similarity_np [3, 4] [3, 4] = Num 1"
proof -
  have z: "np_linalg_norm [0, 0] = 0"
    by (simp add: np_linalg_norm_def)
  have d: "dot [3, 4] [4, 3] = 24"
    by (simp add: dot_def)
  show ?thesis
    using cosine_similarity_spec [of "[3, 4]" "[4, 3]"]
      cosine_similarity_spec [of "[0, 0]" "[4, 3]"]
      cosine_similarity_spec [of "[0, 0]" "[0, 0]"]
      cosine_similarity_spec [of "[3, 4]" "[4]"]
    by (simp add: np_linalg_norm_3_4 np_linalg_norm_4_3 z d np_divide_def)
qed

text \<open>
  Claim C9. The cosine similarity is symmetric in its two arguments, in
  \<^verbatim>\<open>simple_rag.py\<close> and in \<^verbatim>\<open>rag_simple.py\<close> (where both orders raise for vectors of
  different length).
\<close>

theorem cosine_similarity_symmetric:
  "cosine_similarity a b = cosine_similarity b a \<and>
   cosine_similarity_np a b = cosine_similarity_np b a \<and>
   (case (rag_simple_cosine_similarity a b, rag_simple_cosine_similarity b a) of
      (Inr x, Inr y) \<Rightarrow> x = y
    | (Inl e, Inl e') \<Rightarrow> True
    | _ \<Rightarrow> False)"
proof -
  have d: "dot a b = dot b a"
    by (rule dot_commute)
  have m: "np_linalg_norm a * np_linalg_norm b = np_linalg_norm b * np_linalg_norm a"
    by (rule mult.commute)
  have np: "cosine_similarity_np a b = cosine_similarity_np b a"
    using d m by (auto simp: cosine_similarity_np_eq)
  have rs: "(case (rag_simple_cosine_similarity a b, rag_simple_cosine_similarity b a) of
      (Inr x, Inr y) \<Rightarrow> x = y
    | (Inl e, Inl e') \<Rightarrow> True
    | _ \<Rightarrow> False)"
    using d m by (auto simp: rag_simple_cosine_similarity_eq)
  from np rs show ?thesis
    by (simp add: cosine_similarity_def)
qed

section \<open>Properties of the search\<close>

lemma ranks_before_score: "ranks_before x y \<Longrightarrow> snd y \<le> snd x"
  by (auto simp: ranks_before_def)

lemma sorted_wrt_insort_reverse:
  assumes "sorted_wrt ranks_before ys" and "\<forall>y\<in>set ys. fst x < fst y"
  shows "sorted_wrt ranks_before (insort_key (\<lambda>p. - snd p) x ys)"
  using assms
proof (induction ys)
  case Nil
  then show ?case by simp
next
  case (Cons y ys)
  show ?case
  proof (cases "snd y \<le> snd x")
    case True
    have "ranks_before x z" if "z \<in> set (y # ys)" for z
    proof -
      have "snd z \<le> snd y"
        using that Cons.prems(1) by (auto dest: ranks_before_score)
      moreover have "fst x < fst z"
        using that Cons.prems(2) by auto
      ultimately show ?thesis
        using True by (auto simp: ranks_before_def)
    qed
    then show ?thesis
      using True Cons.prems(1) by auto
  next
    case False
    then have "ranks_before y x"
      by (simp add: ranks_before_def)
    moreover have "sorted_wrt ranks_before (insort_key (\<lambda>p. - snd p) x ys)"
      using Cons by simp
    ultimately show ?thesis
      using False Cons.prems(1) by (auto simp: set_insort_key)
  qed
qed

lemma sorted_wrt_sort_reverse:
  assumes "sorted_wrt (\<lambda>x y. fst x < fst y) xs"
  shows "sorted_wrt ranks_before (sort_reverse xs)"
  using assms
proof (induction xs)
  case Nil
  then show ?case by (simp add: sort_reverse_def)
next
  case (Cons x xs)
  then have "sorted_wrt ranks_before (sort_key (\<lambda>p. - snd p) xs)"
    by (simp add: sort_reverse_def)
  moreover have "\<forall>y\<in>set (sort_key (\<lambda>p. - snd p) xs). fst x < fst y"
    using Cons.prems by simp
  ultimately show ?case
    by (simp add: sort_reverse_def sorted_wrt_insort_reverse)
qed

lemma sorted_wrt_slice_to: "sorted_wrt R xs \<Longrightarrow> sorted_wrt R (slice_to k xs)"
  by (simp add: slice_to_def sorted_wrt_take)

lemma set_slice_to: "set (slice_to k xs) \<subseteq> set xs"
  by (auto simp: slice_to_def dest: in_set_takeD)

lemma length_slice_to: "0 \<le> k \<Longrightarrow> length (slice_to k xs) = min (nat k) (length xs)"
  by (simp add: slice_to_def)

lemma scored_fst: "map fst (scored q embs) = [0..<length embs]"
  by (simp add: scored_def enumerate_eq_zip map_fst_zip_take case_prod_unfold comp_def)

lemma scored_sorted: "sorted_wrt (\<lambda>x y. fst x < fst y) (scored q embs)"
proof -
  have "sorted_wrt (<) (map fst (scored q embs))"
    by (simp add: scored_fst)
  then show ?thesis
    by (simp add: sorted_wrt_map)
qed

lemma scored_mem:
  "p \<in> set (scored q embs) \<Longrightarrow> fst p < length embs \<and> snd p = cosine_similarity q (embs ! fst p)"
  by (auto simp: scored_def enumerate_eq_zip in_set_zip)

lemma ranking_alt: "ranking q embs top_k = slice_to top_k (sort_reverse (scored q embs))"
  by (simp add: ranking_def scored_def)

lemma ranking_sorted: "sorted_wrt ranks_before (ranking q embs top_k)"
  by (simp add: ranking_alt sorted_wrt_slice_to sorted_wrt_sort_reverse scored_sorted)

lemma ranking_mem:
  assumes "p \<in> set (ranking q embs top_k)"
  shows "fst p < length embs \<and> snd p = cosine_similarity q (embs ! fst p)"
proof -
  have "p \<in> set (sort_reverse (scored q embs))"
    using assms set_slice_to [of top_k "sort_reverse (scored q embs)"]
    by (auto simp: ranking_alt)
  then have "p \<in> set (scored q embs)"
    by (simp add: sort_reverse_def)
  then show ?thesis
    by (rule scored_mem)
qed

lemma length_ranking:
  "0 \<le> top_k \<Longrightarrow> length (ranking q embs top_k) = min (nat top_k) (length embs)"
  by (simp add: ranking_alt length_slice_to sort_reverse_def scored_def)

lemma build_results_Inr:
  "build_results st ps = Inr rs \<Longrightarrow>
     rs = map (make_result st) ps \<and>
     (\<forall>p\<in>set ps. fst (snd p) < length (documents st) \<and> fst (snd p) < length (metadata st))"
proof (induction ps arbitrary: rs)
  case Nil
  then show ?case by simp
next
  case (Cons p ps)
  obtain i doc_idx score where p: "p = (i, doc_idx, score)"
    by (cases p) auto
  from Cons.prems obtain rs' where
    rest: "build_results st ps = Inr rs'" and
    rs: "rs = make_result st p # rs'" and
    bound: "doc_idx < length (documents st)" "doc_idx < length (metadata st)"
    by (auto simp: p make_result_def split: if_splits sum.splits)
  from Cons.IH [OF rest] show ?case
    using rs bound p by simp
qed

lemma build_results_in_range:
  "(\<forall>p\<in>set ps. fst (snd p) < length (documents st) \<and> fst (snd p) < length (metadata st)) \<Longrightarrow>
   build_results st ps = Inr (map (make_result st) ps)"
proof (induction ps)
  case Nil
  then show ?case by simp
next
  case (Cons p ps)
  obtain i doc_idx score where p: "p = (i, doc_idx, score)"
    by (cases p) auto
  with Cons show ?case
    by (simp add: make_result_def)
qed

lemma cosine_similarity_unit [simp]:
  "cosine_similarity [1, 0, 0] [0, 1, 0] = 0"
  "cosine_similarity [1, 0, 0] [1, 0, 0] = 1"
  "cosine_similarity [1, 0, 0] [0, 0, 1] = 0"
  by (simp_all add: cosine_similarity_eq np_linalg_norm_def dot_def)

lemma ranking_example:
  "ranking [1, 0, 0] (embeddings example_state) 3 = [(1, 1), (0, 0), (2, 0)]"
  by (simp add: ranking_def example_state_def enumerate_eq_zip sort_reverse_def slice_to_def
      upt_rec)

lemma search_try_example:
  "search_try example_world example_state query 3 = Inr example_results"
proof -
  have "search_try example_world example_state query 3 =
      build_results example_state (enumerate 0 [(1, 1), (0, 0), (2, 0)])"
    using ranking_example by (simp add: search_try_def example_world_def)
  also have "\<dots> = Inr example_results"
    by (simp add: enumerate_eq_zip upt_rec example_state_def example_results_def)
  finally show ?thesis .
qed

lemma search_example:
  "search example_world example_state query 3 =
     (example_results, example_state,
      [EmbedCall [query] EMBEDDING_MODEL (ustr ''search_query'')])"
  by (simp add: search_def search_try_example) (simp add: example_state_def)

text \<open>
  Claim C1. Whatever \<^verbatim>\<open>search\<close> returns is ordered by descending cosine similarity
  between the query embedding and the stored embedding of the chunk; results with
  equal scores are in ascending order of their chunk index; and the id of the result at
  position i (counted from 0) is i + 1, while its text and metadata are those stored at
  its chunk index. The list \<open>idx\<close> holds the chunk index of every result.
\<close>

theorem search_ordering:
  assumes "search w st query top_k = (results, st', calls)"
  shows "results = [] \<or>
    (\<exists>query_embedding rest idx.
       embed w [query] (ustr ''search_query'') = Inr (query_embedding # rest) \<and>
       length idx = length results \<and>
       (\<forall>i<length results.
          res_id (results ! i) = i + 1 \<and>
          idx ! i < length (embeddings st) \<and>
          idx ! i < length (documents st) \<and>
          idx ! i < length (metadata st) \<and>
          res_text (results ! i) = documents st ! (idx ! i) \<and>
          res_metadata (results ! i) = metadata st ! (idx ! i) \<and>
          res_score (results ! i) =
            cosine_similarity query_embedding (embeddings st ! (idx ! i))) \<and>
       (\<forall>i j. i < j \<and> j < length results \<longrightarrow>
          res_score (results ! j) < res_score (results ! i) \<or>
          (res_score (results ! i) = res_score (results ! j) \<and> idx ! i < idx ! j)))"
proof (cases "results = []")
  case True
  then show ?thesis by simp
next
  case False
  with assms obtain rs where tried: "search_try w st query top_k = Inr rs" and rs: "results = rs"
    by (auto simp: search_def split: if_splits sum.splits)
  from tried obtain qe rest where
    emb: "embed w [query] (ustr ''search_query'') = Inr (qe # rest)" and
    build: "build_results st (enumerate 0 (ranking qe (embeddings st) top_k)) = Inr rs"
    by (auto simp: search_try_def split: sum.splits list.splits)
  define rk where "rk = ranking qe (embeddings st) top_k"
  from build_results_Inr [OF build] have
    rs_map: "rs = map (make_result st) (enumerate 0 rk)" and
    rng: "\<forall>p\<in>set (enumerate 0 rk). fst (snd p) < length (documents st) \<and>
              fst (snd p) < length (metadata st)"
    by (simp_all add: rk_def)
  have len: "length rs = length rk"
    by (simp add: rs_map)
  have nth: "rs ! i = make_result st (i, rk ! i)" if "i < length rk" for i
    using that by (simp add: rs_map nth_enumerate_eq)
  have mem: "rk ! i \<in> set rk" if "i < length rk" for i
    using that by simp
  have in_range: "fst (rk ! i) < length (documents st) \<and> fst (rk ! i) < length (metadata st)"
    if "i < length rk" for i
  proof -
    have "(i, rk ! i) \<in> set (enumerate 0 rk)"
      using that by (auto simp: in_set_enumerate_eq)
    with rng show ?thesis by fastforce
  qed
  have fields: "res_id (rs ! i) = i + 1 \<and>
          map fst rk ! i < length (embeddings st) \<and>
          map fst rk ! i < length (documents st) \<and>
          map fst rk ! i < length (metadata st) \<and>
          res_text (rs ! i) = documents st ! (map fst rk ! i) \<and>
          res_metadata (rs ! i) = metadata st ! (map fst rk ! i) \<and>
          res_score (rs ! i) = cosine_similarity qe (embeddings st ! (map fst rk ! i))"
    if "i < length rs" for i
  proof -
    have i: "i < length rk"
      using that len by simp
    obtain d s where p: "rk ! i = (d, s)"
      by (cases "rk ! i") auto
    have "d < length (embeddings st) \<and> s = cosine_similarity qe (embeddings st ! d)"
      using ranking_mem [of "rk ! i" qe "embeddings st" top_k] mem [OF i] p
      by (simp add: rk_def)
    moreover have "d < length (documents st) \<and> d < length (metadata st)"
      using in_range [OF i] p by simp
    ultimately show ?thesis
      using nth [OF i] i p by (simp add: make_result_def)
  qed
  have order: "res_score (rs ! j) < res_score (rs ! i) \<or>
          (res_score (rs ! i) = res_score (rs ! j) \<and> map fst rk ! i < map fst rk ! j)"
    if "i < j \<and> j < length rs" for i j
  proof -
    have ij: "i < j" "j < length rk" "i < length rk"
      using that len by simp_all
    have "sorted_wrt ranks_before rk"
      by (simp add: rk_def ranking_sorted)
    then have "ranks_before (rk ! i) (rk ! j)"
      using ij by (simp add: sorted_wrt_iff_nth_less)
    then show ?thesis
      using nth [OF ij(2)] nth [OF ij(3)] ij
      by (auto simp: ranks_before_def make_result_def case_prod_unfold)
  qed
  have "length (map fst rk) = length results"
    by (simp add: rs len)
  with emb fields order show ?thesis
    unfolding rs by blast
qed

theorem search_ordering_witness:
  "search example_world example_state (ustr ''q'') 3 =
     (example_results, example_state,
      [EmbedCall [ustr ''q''] EMBEDDING_MODEL (ustr ''search_query'')]) \<and>
   map res_score example_results = [1, 0, 0] \<and>
   map res_id example_results = [1, 2, 3] \<and>
   map (chunk_id \<circ> res_metadata) example_results = [1, 0, 2] \<and>
   (\<exists>query_embedding rest idx.
       embed example_world [ustr ''q''] (ustr ''search_query'') = Inr (query_embedding # rest) \<and>
       length idx = length example_results \<and>
       (\<forall>i<length example_results.
          res_id (example_results ! i) = i + 1 \<and>
          idx ! i < length (embeddings example_state) \<and>
          idx ! i < length (documents example_state) \<and>
          idx ! i < length (metadata example_state) \<and>
          res_text (example_results ! i) = documents example_state ! (idx ! i) \<and>
          res_metadata (example_results ! i) = metadata example_state ! (idx ! i) \<and>
          res_score (example_results ! i) =
            cosine_similarity query_embedding (embeddings example_state ! (idx ! i))) \<and>
       (\<forall>i j. i < j \<and> j < length example_results \<longrightarrow>
          res_score (example_results ! j) < res_score (example_results ! i) \<or>
          (res_score (example_results ! i) = res_score (example_results ! j) \<and>
           idx ! i < idx ! j)))"
proof -
  have ne: "example_results \<noteq> []"
    by (simp add: example_results_def)
  have "map res_score example_results = [1, 0, 0]"
    "map res_id example_results = [1, 2, 3]"
    "map (chunk_id \<circ> res_metadata) example_results = [1, 0, 2]"
    by (simp_all add: example_results_def)
  then show ?thesis
    using search_ordering [OF search_example [of "ustr ''q''"]] ne search_example [of "ustr ''q''"]
    by blast
qed

text \<open>
  Claim C2, as amended. With an empty store \<^verbatim>\<open>search\<close> returns the empty list and
  makes no remote call. With \<open>n\<close> stored embeddings, a document and a metadata entry
  for each of them, a non-negative \<^verbatim>\<open>top_k\<close> and a query whose embedding call
  succeeds with at least one vector, it returns exactly \<open>min top_k n\<close> results.
\<close>

theorem search_length:
  "(embeddings st = [] \<longrightarrow> search w st query top_k = ([], st, [])) \<and>
   (0 \<le> top_k \<and>
    embed w [query] (ustr ''search_query'') = Inr (query_embedding # rest) \<and>
    length (embeddings st) \<le> length (documents st) \<and>
    length (embeddings st) \<le> length (metadata st) \<longrightarrow>
      length (fst (search w st query top_k)) = min (nat top_k) (length (embeddings st)))"
proof -
  have nonempty: "length (fst (search w st query top_k)) = min (nat top_k) (length (embeddings st))"
    if k: "0 \<le> top_k"
      and emb: "embed w [query] (ustr ''search_query'') = Inr (query_embedding # rest)"
      and docs: "length (embeddings st) \<le> length (documents st)"
      and metas: "length (embeddings st) \<le> length (metadata st)"
  proof (cases "embeddings st = []")
    case True
    then show ?thesis by (simp add: search_def)
  next
    case False
    define rk where "rk = ranking query_embedding (embeddings st) top_k"
    have "\<forall>p\<in>set (enumerate 0 rk). fst (snd p) < length (documents st) \<and>
            fst (snd p) < length (metadata st)"
    proof
      fix p assume "p \<in> set (enumerate 0 rk)"
      then have "fst p < length rk" and "snd p = rk ! fst p"
        by (simp_all add: in_set_enumerate_eq)
      then have "snd p \<in> set rk"
        by simp
      then have "fst (snd p) < length (embeddings st)"
        using ranking_mem [of "snd p" query_embedding "embeddings st" top_k] by (simp add: rk_def)
      with docs metas show "fst (snd p) < length (documents st) \<and> fst (snd p) < length (metadata st)"
        by simp
    qed
    then have "build_results st (enumerate 0 rk) = Inr (map (make_result st) (enumerate 0 rk))"
      by (rule build_results_in_range)
    then have "search_try w st query top_k = Inr (map (make_result st) (enumerate 0 rk))"
      using emb by (simp add: search_try_def rk_def)
    then have "fst (search w st query top_k) = map (make_result st) (enumerate 0 rk)"
      using False by (simp add: search_def)
    then show ?thesis
      using k by (simp add: rk_def length_ranking)
  qed
  have "embeddings st = [] \<longrightarrow> search w st query top_k = ([], st, [])"
    by (simp add: search_def)
  with nonempty show ?thesis
    by blast
qed

theorem search_length_witness:
  "length (fst (search example_world example_state (ustr ''q'') 2)) = 2 \<and>
   search example_world init_state (ustr ''q'') 2 = ([], init_state, [])"
proof -
  have "embed example_world [ustr ''q''] (ustr ''search_query'') = Inr ([1, 0, 0] # [[0, 1]])"
    by (simp add: example_world_def)
  moreover have "length (embeddings example_state) = 3" "length (documents example_state) = 3"
    "length (metadata example_state) = 3"
    by (simp_all add: example_state_def)
  moreover have "embeddings init_state = []"
    by (simp add: init_state_def)
  ultimately show ?thesis
    using search_length [of example_state example_world "ustr ''q''" 2 "[1, 0, 0]" "[[0, 1]]"]
      search_length [of init_state example_world "ustr ''q''" 2]
    by simp
qed

text \<open>
  The claim without the condition on the embedding call fails: on the example store of
  three chunks, with a failing provider and \<^verbatim>\<open>top_k = 3\<close>, \<^verbatim>\<open>search\<close> returns no result
  where the claim asks for three.
\<close>

theorem search_length_counterexample:
  "length (fst (search offline_world example_state (ustr ''q'') 3)) = 0 \<and>
   min (nat 3) (length (embeddings example_state)) = 3"
  by (simp add: search_def search_try_def offline_world_def example_state_def)

section \<open>Failures at query time\<close>





section \<open>Answering: generation failure and the empty store\<close>

lemma foldl_append_concat: "foldl (\<lambda>acc p. acc @ f p) h xs = h @ concat (map f xs)"
  by (induction xs arbitrary: h) simp_all

lemma fallback_answer_eq:
  "fallback_answer w rs =
     fallback_header @
     concat (map (fallback_block w) (zip [1..<Suc (length (take 3 rs))] (take 3 rs)))"
  by (simp add: fallback_answer_def foldl_append_concat slice_to_def enumerate_eq_zip)

lemma build_results_nonempty:
  "build_results st ps = Inr rs \<Longrightarrow> rs \<noteq> [] \<Longrightarrow> documents st \<noteq> []"
  by (cases ps) (auto split: if_splits sum.splits)

lemma search_nonempty_documents:
  assumes "search w st query top_k = (rs, st1, calls1)" and "rs \<noteq> []"
  shows "documents st \<noteq> []"
proof -
  from assms have "search_try w st query top_k = Inr rs"
    by (auto simp: search_def split: if_splits sum.splits)
  then obtain ps where "build_results st ps = Inr rs"
    by (auto simp: search_try_def split: sum.splits list.splits)
  then show ?thesis
    using assms(2) by (rule build_results_nonempty)
qed

lemma answer_question_chat_fails:
  assumes s: "search w st q TOP_K = (rs, st1, calls1)" and ne: "rs \<noteq> []"
    and c: "chat w (chat_message (build_context w rs) q) = Inl e"
  shows "fst (answer_question w st q) =
     \<lparr>question = q, answer = fallback_answer w rs, sources = rs,
      status = ustr ''fallback'', model_used = None\<rparr>"
proof -
  have "documents st \<noteq> []"
    using s ne by (rule search_nonempty_documents)
  then show ?thesis
    using s ne c by (simp add: answer_question_def Let_def)
qed

lemma rag_simple_answer_question_generate_fails:
  assumes s: "rag_simple_search w st q TOP_K = (rs, st1, calls1)" and ne: "rs \<noteq> []"
    and c: "generate w (rag_simple_prompt (build_context w rs) q) = Inl e"
  shows "fst (rag_simple_answer_question w st q) =
     \<lparr>question = q, answer = ustr ''Error generating answer: '' @ str_exn e, sources = rs,
      status = ustr ''error'', model_used = None\<rparr>"
  using s ne c by (simp add: rag_simple_answer_question_def Let_def)

lemma rag_simple_search_try_example:
  "rag_simple_search_try example_world example_state query 3 = Inr example_results"
proof -
  have c: "rag_simple_cosine_similarity [1, 0, 0] [0, 1, 0] = Inr (Num 0)"
    "rag_simple_cosine_similarity [1, 0, 0] [1, 0, 0] = Inr (Num 1)"
    "rag_simple_cosine_similarity [1, 0, 0] [0, 0, 1] = Inr (Num 0)"
    by (simp_all add: rag_simple_cosine_similarity_eq np_linalg_norm_def dot_def)
  have "rag_simple_similarities [1, 0, 0] (enumerate 0 (embeddings example_state)) =
      Inr [(0, 0), (1, 1), (2, 0)]"
    by (simp add: example_state_def enumerate_eq_zip upt_rec c)
  moreover have "slice_to 3 (sort_reverse [(0, 0), (1, 1), (2, 0)]) = [(1, 1), (0, 0), (2, 0 :: real)]"
    by (simp add: sort_reverse_def slice_to_def)
  moreover have "build_results example_state (enumerate 0 [(1, 1), (0, 0), (2, 0)]) = Inr example_results"
    by (simp add: enumerate_eq_zip upt_rec example_state_def example_results_def)
  ultimately show ?thesis
    by (simp add: rag_simple_search_try_def example_world_def)
qed

lemma rag_simple_search_example:
  "rag_simple_search example_world example_state query 3 =
     (example_results, example_state,
      [EmbedCall [query] EMBEDDING_MODEL (ustr ''search_query'')])"
  by (simp add: rag_simple_search_def rag_simple_search_try_example) (simp add: example_state_def)

text \<open>
  Claim C5, as amended. In \<^verbatim>\<open>simple_rag.py\<close>, when the search gives at least one result
  and the generation call fails, \<^verbatim>\<open>answer_question\<close> returns the status
  \<^verbatim>\<open>fallback\<close> with all ranked sources, and its answer is the fixed header followed,
  for each of the first three sources in order, by the source number, the relevance
  formatted as a percentage with one decimal, and the first 200 characters of the text
  followed by three dots. In \<^verbatim>\<open>rag_simple.py\<close> the same situation gives the status
  \<^verbatim>\<open>error\<close>, the ranked sources, and the text of the exception in the answer.
\<close>

theorem answer_question_fallback:
  "(search w st q TOP_K = (rs, st1, calls1) \<and> rs \<noteq> [] \<and>
    chat w (chat_message (build_context w rs) q) = Inl e \<longrightarrow>
      status (fst (answer_question w st q)) = ustr ''fallback'' \<and>
      sources (fst (answer_question w st q)) = rs \<and>
      answer (fst (answer_question w st q)) =
        fallback_header @
        concat (map (\<lambda>(i, chunk).
                  ustr ''**Source '' @ str_nat i @ ustr ''** (Relevance: '' @
                  format_percent w 1 (res_score chunk) @ ustr ''):'' @ [10] @
                  take 200 (res_text chunk) @ ustr ''...'' @ [10, 10])
                (zip [1..<Suc (length (take 3 rs))] (take 3 rs)))) \<and>
   (rag_simple_search w st q TOP_K = (rs', st1', calls1') \<and> rs' \<noteq> [] \<and>
    generate w (rag_simple_prompt (build_context w rs') q) = Inl e' \<longrightarrow>
      status (fst (rag_simple_answer_question w st q)) = ustr ''error'' \<and>
      sources (fst (rag_simple_answer_question w st q)) = rs' \<and>
      answer (fst (rag_simple_answer_question w st q)) =
        ustr ''Error generating answer: '' @ str_exn e')"
proof -
  have blk: "fallback_block w = (\<lambda>(i, chunk).
                  ustr ''**Source '' @ str_nat i @ ustr ''** (Relevance: '' @
                  format_percent w 1 (res_score chunk) @ ustr ''):'' @ [10] @
                  take 200 (res_text chunk) @ ustr ''...'' @ [10, 10])"
    by (rule ext) (simp add: fallback_block_def)
  have a: "status (fst (answer_question w st q)) = ustr ''fallback'' \<and>
      sources (fst (answer_question w st q)) = rs \<and>
      answer (fst (answer_question w st q)) =
        fallback_header @
        concat (map (fallback_block w) (zip [1..<Suc (length (take 3 rs))] (take 3 rs)))"
    if "search w st q TOP_K = (rs, st1, calls1)" "rs \<noteq> []"
      "chat w (chat_message (build_context w rs) q) = Inl e"
    using answer_question_chat_fails [OF that] by (simp add: fallback_answer_eq)
  have b: "status (fst (rag_simple_answer_question w st q)) = ustr ''error'' \<and>
      sources (fst (rag_simple_answer_question w st q)) = rs' \<and>
      answer (fst (rag_simple_answer_question w st q)) =
        ustr ''Error generating answer: '' @ str_exn e'"
    if "rag_simple_search w st q TOP_K = (rs', st1', calls1')" "rs' \<noteq> []"
      "generate w (rag_simple_prompt (build_context w rs') q) = Inl e'"
    using rag_simple_answer_question_generate_fails [OF that] by simp
  from a b show ?thesis
    unfolding blk by blast
qed

theorem answer_question_fallback_witness:
  "status (fst (answer_question example_world example_state (ustr ''q''))) = ustr ''fallback'' \<and>
   sources (fst (answer_question example_world example_state (ustr ''q''))) = example_results \<and>
   answer (fst (answer_question example_world example_state (ustr ''q''))) =
     fallback_header @
     ustr ''**Source 1** (Relevance: ?):'' @ [10] @ ustr ''B....'' @ [10, 10] @
     ustr ''**Source 2** (Relevance: ?):'' @ [10] @ ustr ''A....'' @ [10, 10] @
     ustr ''**Source 3** (Relevance: ?):'' @ [10] @ ustr ''C....'' @ [10, 10] \<and>
   status (fst (rag_simple_answer_question example_world example_state (ustr ''q''))) = ustr ''error'' \<and>
   answer (fst (rag_simple_answer_question example_world example_state (ustr ''q''))) =
     ustr ''Error generating answer: down''"
proof -
  have s: "search example_world example_state (ustr ''q'') TOP_K =
      (example_results, example_state, [EmbedCall [ustr ''q''] EMBEDDING_MODEL (ustr ''search_query'')])"
    by (simp add: TOP_K_def search_example)
  have s': "rag_simple_search example_world example_state (ustr ''q'') TOP_K =
      (example_results, example_state, [EmbedCall [ustr ''q''] EMBEDDING_MODEL (ustr ''search_query'')])"
    by (simp add: TOP_K_def rag_simple_search_example)
  have ne: "example_results \<noteq> []"
    by (simp add: example_results_def)
  have c: "chat example_world (chat_message (build_context example_world example_results) (ustr ''q'')) =
      Inl (ProviderError (ustr ''down''))"
    by (simp add: example_world_def)
  have g: "generate example_world (rag_simple_prompt (build_context example_world example_results) (ustr ''q'')) =
      Inl (ProviderError (ustr ''down''))"
    by (simp add: example_world_def)
  have f: "format_percent example_world = (\<lambda>d x. ustr ''?'')"
    by (simp add: example_world_def)
  have n: "str_nat 1 = ustr ''1''" "str_nat 2 = ustr ''2''" "str_nat 3 = ustr ''3''"
    "str_nat (Suc 0) = ustr ''1''"
    by (simp_all add: str_nat.simps ustr_def)
  have z: "zip [1..<Suc (length (take 3 example_results))] (take 3 example_results) =
      [(1, example_results ! 0), (2, example_results ! 1), (3, example_results ! 2)]"
    by (simp add: example_results_def upt_rec)
  have t: "res_text (example_results ! 0) = ustr ''B.''" "res_text (example_results ! 1) = ustr ''A.''"
    "res_text (example_results ! 2) = ustr ''C.''"
    "res_text (example_results ! Suc 0) = ustr ''A.''"
    by (simp_all add: example_results_def)
  have E: "fallback_header @
        concat (map (\<lambda>(i, chunk).
                  ustr ''**Source '' @ str_nat i @ ustr ''** (Relevance: '' @
                  format_percent example_world 1 (res_score chunk) @ ustr ''):'' @ [10] @
                  take 200 (res_text chunk) @ ustr ''...'' @ [10, 10])
                (zip [1..<Suc (length (take 3 example_results))] (take 3 example_results))) =
     fallback_header @
     ustr ''**Source 1** (Relevance: ?):'' @ [10] @ ustr ''B....'' @ [10, 10] @
     ustr ''**Source 2** (Relevance: ?):'' @ [10] @ ustr ''A....'' @ [10, 10] @
     ustr ''**Source 3** (Relevance: ?):'' @ [10] @ ustr ''C....'' @ [10, 10]"
    unfolding z by (simp add: f n t) (simp add: ustr_def)
  have S: "str_exn (ProviderError (ustr ''down'')) = ustr ''down''"
    by simp
  have A: "ustr ''Error generating answer: '' @ ustr ''down'' = ustr ''Error generating answer: down''"
    by (simp add: ustr_def)
  note th = answer_question_fallback [of example_world example_state "ustr ''q''" example_results
        example_state "[EmbedCall [ustr ''q''] EMBEDDING_MODEL (ustr ''search_query'')]"
        "ProviderError (ustr ''down'')" example_results example_state
        "[EmbedCall [ustr ''q''] EMBEDDING_MODEL (ustr ''search_query'')]"
        "ProviderError (ustr ''down'')"]
  show ?thesis
    using th s s' ne c g unfolding E S A by blast
qed

text \<open>
  The claim fails for \<^verbatim>\<open>answer_question\<close> of \<^verbatim>\<open>rag_simple.py\<close>: on the example store,
  with three ranked sources and a failing generation call, the status is \<^verbatim>\<open>error\<close>.
\<close>

theorem answer_question_fallback_counterexample:
  "sources (fst (rag_simple_answer_question example_world example_state (ustr ''q''))) = example_results \<and>
   length example_results = 3 \<and>
   status (fst (rag_simple_answer_question example_world example_state (ustr ''q''))) = ustr ''error'' \<and>
   ustr ''error'' \<noteq> ustr ''fallback''"
proof -
  have s': "rag_simple_search example_world example_state (ustr ''q'') TOP_K =
      (example_results, example_state, [EmbedCall [ustr ''q''] EMBEDDING_MODEL (ustr ''search_query'')])"
    by (simp add: TOP_K_def rag_simple_search_example)
  have ne: "example_results \<noteq> []" and len: "length example_results = 3"
    by (simp_all add: example_results_def)
  have g: "generate example_world (rag_simple_prompt (build_context example_world example_results) (ustr ''q'')) =
      Inl (ProviderError (ustr ''down''))"
    by (simp add: example_world_def)
  have "ustr ''error'' \<noteq> ustr ''fallback''"
    by (simp add: ustr_def)
  then show ?thesis
    using rag_simple_answer_question_generate_fails [OF s' ne g] len by simp
qed

text \<open>
  Claim C6, as amended. In \<^verbatim>\<open>simple_rag.py\<close>, with no documents stored,
  \<^verbatim>\<open>answer_question\<close> returns the status \<^verbatim>\<open>no_documents\<close>, no sources and a fixed
  answer, leaves the store as it is and makes no remote call. In \<^verbatim>\<open>rag_simple.py\<close>,
  with no embeddings stored, it returns the status \<^verbatim>\<open>no_results\<close>, no sources and a
  fixed answer, also without any remote call.
\<close>

theorem answer_question_no_documents:
  "(documents st = [] \<longrightarrow>
      answer_question w st q =
        (\<lparr>question = q, answer = no_documents_answer, sources = [],
          status = ustr ''no_documents'', model_used = None\<rparr>, st, [])) \<and>
   (embeddings st = [] \<longrightarrow>
      rag_simple_answer_question w st q =
        (\<lparr>question = q, answer = rag_simple_no_results_answer, sources = [],
          status = ustr ''no_results'', model_used = None\<rparr>, st, []))"
  by (simp add: answer_question_def rag_simple_answer_question_def rag_simple_search_def)

theorem answer_question_no_documents_witness:
  "answer_question offline_world init_state (ustr ''q'') =
     (\<lparr>question = ustr ''q'', answer = no_documents_answer, sources = [],
       status = ustr ''no_documents'', model_used = None\<rparr>, init_state, []) \<and>
   rag_simple_answer_question offline_world init_state (ustr ''q'') =
     (\<lparr>question = ustr ''q'', answer = rag_simple_no_results_answer, sources = [],
       status = ustr ''no_results'', model_used = None\<rparr>, init_state, [])"
proof -
  have "documents init_state = []" and "embeddings init_state = []"
    by (simp_all add: init_state_def)
  then show ?thesis
    using answer_question_no_documents [of init_state offline_world "ustr ''q''"]
    by simp
qed

text \<open>
  The claim fails for \<^verbatim>\<open>answer_question\<close> of \<^verbatim>\<open>rag_simple.py\<close>: in the state after
  initialisation the status is \<^verbatim>\<open>no_results\<close>, not \<^verbatim>\<open>no_documents\<close>.
\<close>

theorem answer_question_no_documents_counterexample:
  "documents init_state = [] \<and>
   status (fst (rag_simple_answer_question offline_world init_state (ustr ''q''))) = ustr ''no_results'' \<and>
   ustr ''no_results'' \<noteq> ustr ''no_documents''"
  by (simp add: rag_simple_answer_question_def rag_simple_search_def init_state_def ustr_def)

section \<open>Ingestion\<close>

lemma process_document_cases:
  "process_document w st p =
     (if \<not> path_exists w p then (False, st, [])
      else if \<not> snd (process_pdf CHUNK_SIZE (read_pdf w p)) then (False, st, [])
      else
        (case embed w (fst (process_pdf CHUNK_SIZE (read_pdf w p))) (ustr ''search_document'') of
           Inl e \<Rightarrow>
             (False, st,
              [EmbedCall (fst (process_pdf CHUNK_SIZE (read_pdf w p))) EMBEDDING_MODEL
                 (ustr ''search_document'')])
         | Inr response_embeddings \<Rightarrow>
             (True,
              \<lparr>documents = fst (process_pdf CHUNK_SIZE (read_pdf w p)),
               embeddings = response_embeddings,
               metadata = map (\<lambda>i. \<lparr>source = basename p, chunk_id = i\<rparr>)
                            [0..<length (fst (process_pdf CHUNK_SIZE (read_pdf w p)))]\<rparr>,
              [EmbedCall (fst (process_pdf CHUNK_SIZE (read_pdf w p))) EMBEDDING_MODEL
                 (ustr ''search_document'')])))"
  by (simp add: process_document_def case_prod_unfold Let_def)

lemma process_pdf_example: "process_pdf CHUNK_SIZE (Inr [ustr ''Hi.'']) = ([ustr ''Hi.''], True)"
  by (simp add: process_pdf_def load_pdf_def chunk_text_def normalize_text_def re_split_sentences_def
      strip_def is_space_def is_terminal_def CHUNK_SIZE_def ustr_def Let_def)

text \<open>
  Claim C4, as amended. \<^verbatim>\<open>process_document\<close> validates neither the number of the
  embeddings nor their dimensions: it reports success exactly when the file exists,
  the chunker gives at least one chunk and the embedding call returns, and then the
  store holds the chunks, the embeddings as returned, and one metadata entry per chunk.
  Whenever it reports failure, the stored documents, embeddings and metadata are those
  from before the call.
\<close>

theorem process_document_transactional:
  "(fst (process_document w st p) \<longleftrightarrow>
      path_exists w p \<and> snd (process_pdf CHUNK_SIZE (read_pdf w p)) \<and>
      (\<exists>response_embeddings.
         embed w (fst (process_pdf CHUNK_SIZE (read_pdf w p))) (ustr ''search_document'') =
           Inr response_embeddings)) \<and>
   (\<not> fst (process_document w st p) \<longrightarrow> fst (snd (process_document w st p)) = st) \<and>
   (fst (process_document w st p) \<and>
    embed w (fst (process_pdf CHUNK_SIZE (read_pdf w p))) (ustr ''search_document'') =
      Inr response_embeddings \<longrightarrow>
      fst (snd (process_document w st p)) =
        \<lparr>documents = fst (process_pdf CHUNK_SIZE (read_pdf w p)),
         embeddings = response_embeddings,
         metadata = map (\<lambda>i. \<lparr>source = basename p, chunk_id = i\<rparr>)
                      [0..<length (fst (process_pdf CHUNK_SIZE (read_pdf w p)))]\<rparr>)"
proof -
  have a: "fst (process_document w st p) \<longleftrightarrow>
      path_exists w p \<and> snd (process_pdf CHUNK_SIZE (read_pdf w p)) \<and>
      (\<exists>response_embeddings.
         embed w (fst (process_pdf CHUNK_SIZE (read_pdf w p))) (ustr ''search_document'') =
           Inr response_embeddings)"
    by (simp add: process_document_cases split: sum.splits)
  have b: "\<not> fst (process_document w st p) \<longrightarrow> fst (snd (process_document w st p)) = st"
    by (simp add: process_document_cases split: sum.splits)
  have c: "fst (process_document w st p) \<and>
    embed w (fst (process_pdf CHUNK_SIZE (read_pdf w p))) (ustr ''search_document'') =
      Inr response_embeddings \<longrightarrow>
      fst (snd (process_document w st p)) =
        \<lparr>documents = fst (process_pdf CHUNK_SIZE (read_pdf w p)),
         embeddings = response_embeddings,
         metadata = map (\<lambda>i. \<lparr>source = basename p, chunk_id = i\<rparr>)
                      [0..<length (fst (process_pdf CHUNK_SIZE (read_pdf w p)))]\<rparr>"
    by (simp add: process_document_cases split: sum.splits)
  from a b c show ?thesis
    by blast
qed

theorem process_document_transactional_witness:
  "fst (process_document example_world example_state (ustr ''/tmp/d.pdf'')) \<and>
   fst (snd (process_document example_world example_state (ustr ''/tmp/d.pdf''))) =
     \<lparr>documents = [ustr ''Hi.''],
      embeddings = [[1, 0, 0], [0, 1]],
      metadata = [\<lparr>source = ustr ''d.pdf'', chunk_id = 0\<rparr>]\<rparr> \<and>
   \<not> fst (process_document offline_world example_state (ustr ''/tmp/d.pdf'')) \<and>
   fst (snd (process_document offline_world example_state (ustr ''/tmp/d.pdf''))) = example_state"
proof -
  have r: "read_pdf example_world (ustr ''/tmp/d.pdf'') = Inr [ustr ''Hi.'']"
    "read_pdf offline_world (ustr ''/tmp/d.pdf'') = Inr [ustr ''Hi.'']"
    by (simp_all add: example_world_def offline_world_def)
  have x: "path_exists example_world (ustr ''/tmp/d.pdf'')" "path_exists offline_world (ustr ''/tmp/d.pdf'')"
    by (simp_all add: example_world_def offline_world_def)
  have e: "embed example_world [ustr ''Hi.''] (ustr ''search_document'') = Inr [[1, 0, 0], [0, 1]]"
    by (simp add: example_world_def)
  have e': "embed offline_world [ustr ''Hi.''] (ustr ''search_document'') = Inl (ProviderError (ustr ''down''))"
    by (simp add: offline_world_def)
  have b: "basename (ustr ''/tmp/d.pdf'') = ustr ''d.pdf''"
    by (simp add: basename_def ustr_def)
  show ?thesis
    using process_document_transactional [of example_world example_state "ustr ''/tmp/d.pdf''"
        "[[1, 0, 0], [0, 1]]"]
      process_document_transactional [of offline_world example_state "ustr ''/tmp/d.pdf''"]
    by (simp add: r x e e' b process_pdf_example)
qed

text \<open>
  The claim's validation is absent: when the embedding call returns two vectors of
  different dimensions for a single chunk, \<^verbatim>\<open>process_document\<close> reports success and
  stores one document with two embeddings.
\<close>

theorem process_document_transactional_counterexample:
  "process_document example_world example_state (ustr ''/tmp/d.pdf'') =
     (True,
      \<lparr>documents = [ustr ''Hi.''],
       embeddings = [[1, 0, 0], [0, 1]],
       metadata = [\<lparr>source = ustr ''d.pdf'', chunk_id = 0\<rparr>]\<rparr>,
      [EmbedCall [ustr ''Hi.''] EMBEDDING_MODEL (ustr ''search_document'')])"
proof -
  have r: "read_pdf example_world (ustr ''/tmp/d.pdf'') = Inr [ustr ''Hi.'']"
    by (simp add: example_world_def)
  have b: "basename (ustr ''/tmp/d.pdf'') = ustr ''d.pdf''"
    by (simp add: basename_def ustr_def)
  have x: "path_exists example_world (ustr ''/tmp/d.pdf'')"
    by (simp add: example_world_def)
  have e: "embed example_world [ustr ''Hi.''] (ustr ''search_document'') = Inr [[1, 0, 0], [0, 1]]"
    by (simp add: example_world_def)
  show ?thesis
    by (simp add: process_document_cases r x e process_pdf_example b)
qed

section \<open>The chunker on a document without text\<close>

lemma strip_single_space: "strip [32] = []"
  by (simp add: strip_def is_space_def)

lemma chunk_text_of_empty:
  assumes "normalize_text full_text = []"
  shows "chunk_text chunk_size full_text = [[]]"
  using assms
  by (simp add: chunk_text_def re_split_sentences_def strip_single_space)

lemma normalize_blank_pages:
  "normalize_text (concat (map (\<lambda>text. text @ [10, 10]) [ustr ''  '', []])) = []"
  by (simp add: normalize_text_def strip_def is_space_def ustr_def)

text \<open>
  Claim C3 does not hold of the code. For a text that is empty after normalisation,
  \<^verbatim>\<open>re.split\<close> gives one empty sentence, the loop turns it into the current chunk
  of one space, which is not empty, and the final \<^verbatim>\<open>strip\<close> appends the empty
  string: the chunker returns one empty chunk for every chunk size, and
  \<^verbatim>\<open>process_pdf\<close> reports success.
\<close>

theorem empty_text_one_empty_chunk:
  "(normalize_text full_text = [] \<longrightarrow> chunk_text chunk_size full_text = [[]]) \<and>
   (normalize_text (concat (map (\<lambda>text. text @ [10, 10]) pages)) = [] \<longrightarrow>
      process_pdf chunk_size (Inr pages) = ([[]], True))"
  by (simp add: chunk_text_of_empty process_pdf_def load_pdf_def)

theorem empty_text_one_empty_chunk_witness:
  "normalize_text [] = [] \<and> chunk_text CHUNK_SIZE [] = [[]] \<and>
   process_pdf CHUNK_SIZE (Inr [ustr ''  '', []]) = ([[]], True) \<and>
   process_document blank_pdf_world example_state (ustr ''scan.pdf'') =
     (True,
      \<lparr>documents = [[]], embeddings = [[1, 0, 0]],
       metadata = [\<lparr>source = ustr ''scan.pdf'', chunk_id = 0\<rparr>]\<rparr>,
      [EmbedCall [[]] EMBEDDING_MODEL (ustr ''search_document'')])"
proof -
  have n: "normalize_text [] = []"
    by (simp add: normalize_text_def strip_def)
  have p: "process_pdf CHUNK_SIZE (Inr [ustr ''  '', []]) = ([[]], True)"
    using empty_text_one_empty_chunk [of "[]" CHUNK_SIZE "[ustr ''  '', []]"] normalize_blank_pages
    by simp
  have c: "chunk_text CHUNK_SIZE [] = [[]]"
    using empty_text_one_empty_chunk [of "[]" CHUNK_SIZE "[]"] n by simp
  have b: "basename (ustr ''scan.pdf'') = ustr ''scan.pdf''"
    by (simp add: basename_def ustr_def)
  have "process_document blank_pdf_world example_state (ustr ''scan.pdf'') =
     (True,
      \<lparr>documents = [[]], embeddings = [[1, 0, 0]],
       metadata = [\<lparr>source = ustr ''scan.pdf'', chunk_id = 0\<rparr>]\<rparr>,
      [EmbedCall [[]] EMBEDDING_MODEL (ustr ''search_document'')])"
    by (simp add: process_document_cases blank_pdf_world_def p b)
  with n c p show ?thesis
    by simp
qed

section \<open>The chunker\<close>

lemma re_sub_spaces_head:
  "re_sub_spaces (dropWhile is_space cs) = [] \<or>
   \<not> is_space (hd (re_sub_spaces (dropWhile is_space cs)))"
proof (cases "dropWhile is_space cs")
  case Nil
  have "re_sub_spaces [] = []"
    by simp
  with Nil show ?thesis
    by (simp only: simp_thms)
next
  case (Cons d ds)
  then have "\<not> is_space d"
    using hd_dropWhile [of is_space cs] by auto
  then show ?thesis
    using Cons by simp
qed

lemma collapsed_re_sub_spaces: "collapsed (re_sub_spaces t)"
proof (induction t rule: re_sub_spaces.induct)
  case 1
  then show ?case by simp
next
  case (2 c cs)
  show ?case
  proof (cases "is_space c")
    case True
    then show ?thesis
      using 2 re_sub_spaces_head [of cs] by (auto split: list.splits)
  next
    case False
    then show ?thesis
      using 2 by simp
  qed
qed

lemma collapsed_dropWhile: "collapsed s \<Longrightarrow> collapsed (dropWhile P s)"
  by (induction s) auto

lemma collapsed_prefix: "collapsed (xs @ ys) \<Longrightarrow> collapsed xs"
proof (induction xs)
  case Nil
  then show ?case by simp
next
  case (Cons x xs)
  then show ?case
    by (cases xs) (auto split: if_splits list.splits)
qed

lemma strip_prefix: "\<exists>ys. dropWhile is_space s = strip s @ ys"
proof -
  have "rev (dropWhile is_space s) =
      takeWhile is_space (rev (dropWhile is_space s)) @ dropWhile is_space (rev (dropWhile is_space s))"
    by simp
  then have "dropWhile is_space s =
      strip s @ rev (takeWhile is_space (rev (dropWhile is_space s)))"
    by (metis rev_append rev_rev_ident strip_def)
  then show ?thesis ..
qed

lemma collapsed_strip: "collapsed s \<Longrightarrow> collapsed (strip s)"
proof -
  assume "collapsed s"
  then have "collapsed (dropWhile is_space s)"
    by (rule collapsed_dropWhile)
  moreover obtain ys where "dropWhile is_space s = strip s @ ys"
    using strip_prefix by blast
  ultimately show ?thesis
    using collapsed_prefix by metis
qed

lemma strip_last: "strip s \<noteq> [] \<Longrightarrow> \<not> is_space (last (strip s))"
proof -
  assume ne: "strip s \<noteq> []"
  then have "dropWhile is_space (rev (dropWhile is_space s)) \<noteq> []"
    by (simp add: strip_def)
  then have "\<not> is_space (hd (dropWhile is_space (rev (dropWhile is_space s))))"
    by (rule hd_dropWhile)
  then show ?thesis
    using ne by (simp add: strip_def last_rev)
qed

lemma strip_hd: "strip s \<noteq> [] \<Longrightarrow> \<not> is_space (hd (strip s))"
proof -
  assume ne: "strip s \<noteq> []"
  obtain ys where ys: "dropWhile is_space s = strip s @ ys"
    using strip_prefix by blast
  with ne have "dropWhile is_space s \<noteq> []" and "hd (dropWhile is_space s) = hd (strip s)"
    by auto
  then show ?thesis
    using hd_dropWhile [of is_space s] by auto
qed

lemma normalize_shape:
  "collapsed (normalize_text t) \<and> (normalize_text t = [] \<or> solid (normalize_text t))"
  by (auto simp: normalize_text_def solid_def collapsed_strip collapsed_re_sub_spaces strip_hd strip_last)

lemma collapsed_tidy: "collapsed s \<Longrightarrow> s = [] \<or> \<not> is_space (last s) \<Longrightarrow> tidy s"
proof (induction s)
  case Nil
  then show ?case by simp
next
  case (Cons c cs)
  then show ?case
    by (cases cs) (auto split: if_splits)
qed

lemma tidy_normalize: "tidy (normalize_text t)"
  using normalize_shape [of t] by (auto simp: solid_def intro: collapsed_tidy)

lemma is_terminal_not_space: "is_terminal c \<Longrightarrow> \<not> is_space c"
  by (auto simp: is_terminal_def is_space_def)

lemma re_split_from_nonempty: "re_split_from cur rest \<noteq> []"
  by (induction cur rest rule: re_split_from.induct) auto

lemma join_Cons: "ps \<noteq> [] \<Longrightarrow> join sep (p # ps) = p @ sep @ join sep ps"
  by (cases ps) simp_all

lemma tidy_space_next:
  assumes "tidy (c # cs)" and "is_space c"
  shows "c = 32 \<and> cs \<noteq> [] \<and> \<not> is_space (hd cs) \<and> dropWhile is_space cs = cs"
  using assms by (cases cs) auto

lemma tidy_tail: "tidy (c # cs) \<Longrightarrow> tidy cs"
  by simp

text \<open>The pieces of a tidy text, joined by single spaces, give the text back.\<close>

lemma join_re_split_from:
  "tidy rest \<Longrightarrow> join [32] (re_split_from cur rest) = cur @ rest"
proof (induction cur rest rule: re_split_from.induct)
  case (1 cur)
  then show ?case by simp
next
  case (2 cur c cs)
  show ?case
  proof (cases "is_space c \<and> cur \<noteq> [] \<and> is_terminal (last cur)")
    case True
    then have sp: "c = 32 \<and> cs \<noteq> [] \<and> \<not> is_space (hd cs) \<and> dropWhile is_space cs = cs"
      using tidy_space_next [OF "2.prems"] by simp
    have "tidy (dropWhile is_space cs)"
      using sp tidy_tail [OF "2.prems"] by simp
    then have "join [32] (re_split_from [] (dropWhile is_space cs)) = [] @ dropWhile is_space cs"
      using "2.IH"(1) True by simp
    then have "join [32] (re_split_from [] cs) = cs"
      using sp by simp
    then show ?thesis
      using True sp by (simp add: join_Cons re_split_from_nonempty)
  next
    case False
    have "join [32] (re_split_from (cur @ [c]) cs) = (cur @ [c]) @ cs"
      using "2.IH"(2) False tidy_tail [OF "2.prems"] by blast
    then show ?thesis
      using False by auto
  qed
qed

text \<open>Every piece of a tidy text that ends without whitespace is solid.\<close>

lemma solid_re_split_from:
  assumes "tidy rest"
    and "cur = [] \<longrightarrow> rest \<noteq> [] \<and> \<not> is_space (hd rest)"
    and "cur \<noteq> [] \<longrightarrow> \<not> is_space (hd cur)"
    and "\<not> is_space (last (cur @ rest))"
  shows "\<forall>s\<in>set (re_split_from cur rest). solid s"
  using assms
proof (induction cur rest rule: re_split_from.induct)
  case (1 cur)
  then show ?case by (simp add: solid_def)
next
  case (2 cur c cs)
  show ?case
  proof (cases "is_space c \<and> cur \<noteq> [] \<and> is_terminal (last cur)")
    case True
    then have sp: "c = 32 \<and> cs \<noteq> [] \<and> \<not> is_space (hd cs) \<and> dropWhile is_space cs = cs"
      using tidy_space_next [OF "2.prems"(1)] by simp
    have cur: "solid cur"
      using True "2.prems"(3) by (simp add: solid_def is_terminal_not_space)
    have "\<forall>s\<in>set (re_split_from [] (dropWhile is_space cs)). solid s"
    proof (rule "2.IH"(1) [OF True])
      show "tidy (dropWhile is_space cs)"
        using sp tidy_tail [OF "2.prems"(1)] by simp
      show "[] = [] \<longrightarrow> dropWhile is_space cs \<noteq> [] \<and> \<not> is_space (hd (dropWhile is_space cs))"
        using sp by simp
      show "[] \<noteq> [] \<longrightarrow> \<not> is_space (hd [])"
        by simp
      show "\<not> is_space (last ([] @ dropWhile is_space cs))"
        using sp "2.prems"(4) by simp
    qed
    then show ?thesis
      using True cur by simp
  next
    case False
    have "\<forall>s\<in>set (re_split_from (cur @ [c]) cs). solid s"
    proof (rule "2.IH"(2) [OF False])
      show "tidy cs"
        using tidy_tail [OF "2.prems"(1)] .
      show "cur @ [c] = [] \<longrightarrow> cs \<noteq> [] \<and> \<not> is_space (hd cs)"
        by simp
      show "cur @ [c] \<noteq> [] \<longrightarrow> \<not> is_space (hd (cur @ [c]))"
        using "2.prems"(2,3) by (cases cur) auto
      show "\<not> is_space (last ((cur @ [c]) @ cs))"
        using "2.prems"(4) by simp
    qed
    then show ?thesis
      using False by auto
  qed
qed

lemma sentences_of_normalized:
  assumes "normalize_text t \<noteq> []"
  shows "join [32] (re_split_sentences (normalize_text t)) = normalize_text t"
    and "\<forall>s\<in>set (re_split_sentences (normalize_text t)). solid s"
proof -
  have s: "solid (normalize_text t)"
    using normalize_shape [of t] assms by simp
  show "join [32] (re_split_sentences (normalize_text t)) = normalize_text t"
    using join_re_split_from [OF tidy_normalize, of "[]" t] by (simp add: re_split_sentences_def)
  show "\<forall>s\<in>set (re_split_sentences (normalize_text t)). solid s"
    unfolding re_split_sentences_def
  proof (rule solid_re_split_from)
    show "tidy (normalize_text t)"
      by (rule tidy_normalize)
    show "[] = [] \<longrightarrow> normalize_text t \<noteq> [] \<and> \<not> is_space (hd (normalize_text t))"
      using s by (simp add: solid_def)
    show "[] \<noteq> [] \<longrightarrow> \<not> is_space (hd [])"
      by simp
    show "\<not> is_space (last ([] @ normalize_text t))"
      using s by (simp add: solid_def)
  qed
qed

lemma spaced_concat_join: "g \<noteq> [] \<Longrightarrow> spaced_concat g = join [32] g @ [32]"
proof (induction g)
  case Nil
  then show ?case by simp
next
  case (Cons s g)
  then show ?case
    by (cases g) (simp_all add: spaced_concat_def)
qed

lemma spaced_concat_empty: "spaced_concat g = [] \<longleftrightarrow> g = []"
  by (cases g) (simp_all add: spaced_concat_def)

lemma spaced_concat_snoc: "spaced_concat (g @ [s]) = spaced_concat g @ s @ [32]"
  by (simp add: spaced_concat_def)

lemma join_snoc: "g \<noteq> [] \<Longrightarrow> join sep (g @ [s]) = join sep g @ sep @ s"
proof (induction g)
  case Nil
  then show ?case by simp
next
  case (Cons a g)
  then show ?case
    by (cases g) simp_all
qed

lemma join_hd: "g \<noteq> [] \<Longrightarrow> hd g \<noteq> [] \<Longrightarrow> hd (join sep g) = hd (hd g) \<and> join sep g \<noteq> []"
proof (cases g)
  case Nil
  assume "g \<noteq> []"
  with Nil show ?thesis by simp
next
  case (Cons a g')
  assume "hd g \<noteq> []"
  with Cons show ?thesis
    by (cases g') auto
qed

lemma join_last:
  "g \<noteq> [] \<Longrightarrow> last g \<noteq> [] \<Longrightarrow> last (join sep g) = last (last g) \<and> join sep g \<noteq> []"
proof (induction g)
  case Nil
  then show ?case by simp
next
  case (Cons a g)
  then show ?case
    by (cases g) auto
qed

lemma solid_join:
  assumes "g \<noteq> []" and "\<forall>s\<in>set g. solid s"
  shows "solid (join [32] g)"
proof -
  have "solid (hd g)" and "solid (last g)"
    using assms by simp_all
  then show ?thesis
    using join_hd [of g "[32]"] join_last [of g "[32]"] assms(1) by (simp add: solid_def)
qed

lemma strip_solid:
  assumes "solid x"
  shows "strip (x @ [32]) = x"
proof -
  obtain a x' where x: "x = a # x'" and a: "\<not> is_space a"
    using assms by (cases x) (auto simp: solid_def)
  have l: "\<not> is_space (last x)" and ne: "x \<noteq> []"
    using assms by (simp_all add: solid_def)
  have "dropWhile is_space (x @ [32]) = x @ [32]"
    using x a by simp
  moreover have "dropWhile is_space (rev (x @ [32])) = rev x"
  proof -
    have "is_space 32"
      by (simp add: is_space_def)
    moreover have "dropWhile is_space (rev x) = rev x"
      using l ne by (cases "rev x") (auto simp: last_rev)
    ultimately show ?thesis
      by simp
  qed
  ultimately show ?thesis
    by (simp add: strip_def)
qed

lemma strip_spaced_concat:
  assumes "g \<noteq> []" and "\<forall>s\<in>set g. solid s"
  shows "strip (spaced_concat g) = join [32] g"
  using assms by (simp add: spaced_concat_join strip_solid solid_join)

text \<open>The chunk loop, step for step, is the grouping loop on lists of sentences.\<close>

lemma chunk_loop_groups:
  assumes "\<forall>s\<in>set ss. solid s" and "\<forall>s\<in>set g. solid s"
  shows "chunk_loop n ss (map (join [32]) gs, spaced_concat g) =
     (map (join [32]) (fst (group_loop n ss (gs, g))), spaced_concat (snd (group_loop n ss (gs, g))))"
  using assms
proof (induction ss arbitrary: gs g)
  case Nil
  then show ?case by simp
next
  case (Cons s ss)
  show ?case
  proof (cases "int (length (spaced_concat g)) + int (length s) < n")
    case True
    have "chunk_loop n ss (map (join [32]) gs, spaced_concat (g @ [s])) =
        (map (join [32]) (fst (group_loop n ss (gs, g @ [s]))),
         spaced_concat (snd (group_loop n ss (gs, g @ [s]))))"
      using Cons.prems by (intro Cons.IH) auto
    then show ?thesis
      using True by (simp add: spaced_concat_snoc)
  next
    case False
    define gs' where "gs' = (if g \<noteq> [] then gs @ [g] else gs)"
    have a: "(if spaced_concat g \<noteq> [] then map (join [32]) gs @ [strip (spaced_concat g)]
              else map (join [32]) gs) = map (join [32]) gs'"
      using Cons.prems(2) by (simp add: gs'_def spaced_concat_empty strip_spaced_concat)
    have b: "s @ [32] = spaced_concat [s]"
      by (simp add: spaced_concat_def)
    have "chunk_loop n ss (map (join [32]) gs', spaced_concat [s]) =
        (map (join [32]) (fst (group_loop n ss (gs', [s]))),
         spaced_concat (snd (group_loop n ss (gs', [s]))))"
      using Cons.prems by (intro Cons.IH) auto
    then show ?thesis
      using False a b by (simp add: gs'_def)
  qed
qed

lemma group_loop_props:
  assumes "\<forall>x\<in>set gs. x \<noteq> [] \<and> fits n x" and "g = [] \<or> fits n g"
  shows "concat (fst (group_loop n ss (gs, g))) @ snd (group_loop n ss (gs, g)) = concat gs @ g @ ss \<and>
     (\<forall>x\<in>set (fst (group_loop n ss (gs, g))). x \<noteq> [] \<and> fits n x) \<and>
     (snd (group_loop n ss (gs, g)) = [] \<or> fits n (snd (group_loop n ss (gs, g)))) \<and>
     (g \<noteq> [] \<or> ss \<noteq> [] \<longrightarrow> snd (group_loop n ss (gs, g)) \<noteq> [])"
  using assms
proof (induction ss arbitrary: gs g)
  case Nil
  then show ?case by simp
next
  case (Cons s ss)
  show ?case
  proof (cases "int (length (spaced_concat g)) + int (length s) < n")
    case True
    have w: "fits n (g @ [s])"
    proof (cases "g = []")
      case True
      with \<open>int (length (spaced_concat g)) + int (length s) < n\<close> show ?thesis
        by (simp add: fits_def spaced_concat_def)
    next
      case False
      with \<open>int (length (spaced_concat g)) + int (length s) < n\<close> show ?thesis
        by (simp add: fits_def spaced_concat_join join_snoc)
    qed
    define R where "R = group_loop n ss (gs, g @ [s])"
    have ih: "concat (fst R) @ snd R = concat gs @ (g @ [s]) @ ss \<and>
       (\<forall>x\<in>set (fst R). x \<noteq> [] \<and> fits n x) \<and>
       (snd R = [] \<or> fits n (snd R)) \<and>
       (g @ [s] \<noteq> [] \<or> ss \<noteq> [] \<longrightarrow> snd R \<noteq> [])"
      unfolding R_def using Cons.prems(1) w by (intro Cons.IH) auto
    have step: "group_loop n (s # ss) (gs, g) = R"
      using True by (simp add: R_def)
    show ?thesis
      unfolding step using ih by auto
  next
    case False
    define gs' where "gs' = (if g \<noteq> [] then gs @ [g] else gs)"
    have g1: "\<forall>x\<in>set gs'. x \<noteq> [] \<and> fits n x"
      using Cons.prems by (auto simp: gs'_def)
    have g2: "[s] = [] \<or> fits n [s]"
      by (auto simp: fits_def)
    have c: "concat gs' = concat gs @ g"
      by (simp add: gs'_def)
    define R where "R = group_loop n ss (gs', [s])"
    have ih: "concat (fst R) @ snd R = concat gs' @ [s] @ ss \<and>
       (\<forall>x\<in>set (fst R). x \<noteq> [] \<and> fits n x) \<and>
       (snd R = [] \<or> fits n (snd R)) \<and>
       ([s] \<noteq> [] \<or> ss \<noteq> [] \<longrightarrow> snd R \<noteq> [])"
      unfolding R_def using g1 g2 by (rule Cons.IH)
    have step: "group_loop n (s # ss) (gs, g) = R"
      using False by (simp add: R_def gs'_def)
    show ?thesis
      unfolding step using ih c by auto
  qed
qed

lemma join_append:
  "xs \<noteq> [] \<Longrightarrow> ys \<noteq> [] \<Longrightarrow> join sep (xs @ ys) = join sep xs @ sep @ join sep ys"
proof (induction xs)
  case Nil
  then show ?case by simp
next
  case (Cons x xs)
  then show ?case
    by (cases xs) (simp_all add: join_Cons)
qed

lemma join_map_join:
  "\<forall>g\<in>set gs. g \<noteq> [] \<Longrightarrow> join sep (map (join sep) gs) = join sep (concat gs)"
proof (induction gs)
  case Nil
  then show ?case by simp
next
  case (Cons g gs)
  show ?case
  proof (cases "gs = []")
    case True
    then show ?thesis by simp
  next
    case False
    then have "concat gs \<noteq> []"
      using Cons.prems by (cases gs) auto
    then show ?thesis
      using Cons False by (simp add: join_Cons join_append)
  qed
qed

lemma chunk_text_groups:
  fixes n :: int and t :: pystr
  assumes ne: "normalize_text t \<noteq> []"
  defines "ss \<equiv> re_split_sentences (normalize_text t)"
  defines "R \<equiv> group_loop n ss ([], [])"
  shows "chunk_text n t = map (join [32]) (fst R @ [snd R])"
    and "concat (fst R @ [snd R]) = ss"
    and "\<forall>g\<in>set (fst R @ [snd R]). g \<noteq> [] \<and> fits n g"
proof -
  have solid: "\<forall>s\<in>set ss. solid s"
    unfolding ss_def using sentences_of_normalized(2) [OF ne] .
  have ss_ne: "ss \<noteq> []"
    by (simp add: ss_def re_split_sentences_def re_split_from_nonempty)
  have props: "concat (fst R) @ snd R = ss \<and>
     (\<forall>x\<in>set (fst R). x \<noteq> [] \<and> fits n x) \<and>
     (snd R = [] \<or> fits n (snd R)) \<and>
     (ss \<noteq> [] \<longrightarrow> snd R \<noteq> [])"
    using group_loop_props [of "[]" n "[]" ss] by (simp add: R_def)
  then have cat: "concat (fst R) @ snd R = ss" and last_ne: "snd R \<noteq> []"
    and fits_all: "\<forall>x\<in>set (fst R). x \<noteq> [] \<and> fits n x" and fits_last: "fits n (snd R)"
    using ss_ne by auto
  have "set (snd R) \<subseteq> set ss"
    using cat by (metis Un_upper2 set_append)
  then have solid_last: "\<forall>s\<in>set (snd R). solid s"
    using solid by blast
  have loop: "chunk_loop n ss ([], []) = (map (join [32]) (fst R), spaced_concat (snd R))"
    using chunk_loop_groups [of ss "[]" n "[]"] solid
    by (simp add: R_def spaced_concat_def)
  have "chunk_text n t = map (join [32]) (fst R) @ [strip (spaced_concat (snd R))]"
    using loop last_ne by (simp add: chunk_text_def ss_def [symmetric] spaced_concat_empty)
  then show "chunk_text n t = map (join [32]) (fst R @ [snd R])"
    using last_ne solid_last by (simp add: strip_spaced_concat)
  show "concat (fst R @ [snd R]) = ss"
    using cat by simp
  show "\<forall>g\<in>set (fst R @ [snd R]). g \<noteq> [] \<and> fits n g"
    using fits_all fits_last last_ne by simp
qed

text \<open>
  Claim C7. For every text and every chunk size, the chunks are the sentences of the
  normalised text, in order, grouped into non-empty runs and joined by single spaces:
  no sentence is split or dropped. Every chunk is at most as long as the chunk size,
  unless it is a single sentence that is longer, which is then the chunk unchanged.
  Joining the sentences, and joining the chunks, with single spaces gives the
  normalised text back.
\<close>

theorem chunk_text_spec:
  "\<exists>groups.
     concat groups = re_split_sentences (normalize_text full_text) \<and>
     (\<forall>g\<in>set groups. g \<noteq> []) \<and>
     chunk_text chunk_size full_text = map (join [32]) groups \<and>
     (\<forall>g\<in>set groups.
        int (length (join [32] g)) \<le> chunk_size \<or>
        (\<exists>s. g = [s] \<and> chunk_size < int (length s))) \<and>
     join [32] (re_split_sentences (normalize_text full_text)) = normalize_text full_text \<and>
     join [32] (chunk_text chunk_size full_text) = normalize_text full_text"
proof (cases "normalize_text full_text = []")
  case True
  have "chunk_text chunk_size full_text = [[]]"
    using True by (rule chunk_text_of_empty)
  moreover have "re_split_sentences (normalize_text full_text) = [[]]"
    using True by (simp add: re_split_sentences_def)
  moreover have "int (length (join [32] [[]])) \<le> chunk_size \<or>
      (\<exists>s. [[]] = [s] \<and> chunk_size < int (length s))"
    by (cases "0 \<le> chunk_size") auto
  ultimately show ?thesis
    using True by (intro exI [of _ "[[[]]]"]) simp
next
  case False
  define groups where
    "groups = fst (group_loop chunk_size (re_split_sentences (normalize_text full_text)) ([], [])) @
              [snd (group_loop chunk_size (re_split_sentences (normalize_text full_text)) ([], []))]"
  have c: "chunk_text chunk_size full_text = map (join [32]) groups"
    and g: "concat groups = re_split_sentences (normalize_text full_text)"
    and f: "\<forall>g\<in>set groups. g \<noteq> [] \<and> fits chunk_size g"
    unfolding groups_def by (rule chunk_text_groups [OF False])+
  have j: "join [32] (re_split_sentences (normalize_text full_text)) = normalize_text full_text"
    by (rule sentences_of_normalized(1) [OF False])
  have "join [32] (map (join [32]) groups) = join [32] (concat groups)"
    using f by (intro join_map_join) simp
  then have "join [32] (chunk_text chunk_size full_text) = normalize_text full_text"
    by (simp add: c g j)
  moreover have "\<forall>g\<in>set groups.
        int (length (join [32] g)) \<le> chunk_size \<or>
        (\<exists>s. g = [s] \<and> chunk_size < int (length s))"
    using f by (simp add: fits_def)
  ultimately show ?thesis
    using c g f j by (intro exI [of _ groups]) simp
qed

lemma chunk_text_example:
  "chunk_text 6 (ustr ''A. B.  C. D! Longsentence here. '') =
     [ustr ''A. B.'', ustr ''C. D!'', ustr ''Longsentence here.'']"
  by (simp add: chunk_text_def normalize_text_def re_split_sentences_def strip_def is_space_def
      is_terminal_def ustr_def)

theorem chunk_text_spec_witness:
  "chunk_text 6 (ustr ''A. B.  C. D! Longsentence here. '') =
     [ustr ''A. B.'', ustr ''C. D!'', ustr ''Longsentence here.''] \<and>
   normalize_text (ustr ''A. B.  C. D! Longsentence here. '') = ustr ''A. B. C. D! Longsentence here.'' \<and>
   (\<exists>groups.
     concat groups = re_split_sentences (normalize_text (ustr ''A. B.  C. D! Longsentence here. '')) \<and>
     (\<forall>g\<in>set groups. g \<noteq> []) \<and>
     chunk_text 6 (ustr ''A. B.  C. D! Longsentence here. '') = map (join [32]) groups \<and>
     (\<forall>g\<in>set groups.
        int (length (join [32] g)) \<le> 6 \<or>
        (\<exists>s. g = [s] \<and> 6 < int (length s))) \<and>
     join [32] (re_split_sentences (normalize_text (ustr ''A. B.  C. D! Longsentence here. ''))) =
       normalize_text (ustr ''A. B.  C. D! Longsentence here. '') \<and>
     join [32] (chunk_text 6 (ustr ''A. B.  C. D! Longsentence here. '')) =
       normalize_text (ustr ''A. B.  C. D! Longsentence here. ''))"
proof -
  have n: "normalize_text (ustr ''A. B.  C. D! Longsentence here. '') = ustr ''A. B. C. D! Longsentence here.''"
    by (simp add: normalize_text_def strip_def is_space_def ustr_def)
  show ?thesis
    using chunk_text_spec [of "ustr ''A. B.  C. D! Longsentence here. ''" 6] chunk_text_example n
    by blast
qed

end
